theory Spec2Isabelle
  imports Main "HOL-Library.Word"
begin

unbundle bit_operations_syntax

section \<open>The PCI IDE/ATA disk driver: bsp/drv/dev/block/hdd.c\<close>

text \<open>
  The driver is C for a 32-bit kernel: \<open>int\<close>, \<open>unsigned int\<close>, \<open>size_t\<close> and
  \<open>uint32_t\<close> are 32 bits wide, \<open>uint64_t\<close> is \<open>unsigned long long\<close>. A C \<open>int\<close> is
  a \<open>32 word\<close> read with \<open>sint\<close> where its sign matters; unsigned arithmetic wraps as
  word arithmetic does.
\<close>

type_synonym u8 = "8 word"
type_synonym u16 = "16 word"
type_synonym u32 = "32 word"
type_synonym u64 = "64 word"

subsection \<open>Constants\<close>

definition SECTOR_SIZE :: u32 where "SECTOR_SIZE = 512"

definition ATA_REG_DATA :: u32 where "ATA_REG_DATA = 0"
definition ATA_REG_ERR :: u32 where "ATA_REG_ERR = 1"
definition ATA_REG_SECTOR_COUNT :: u32 where "ATA_REG_SECTOR_COUNT = 2"
definition ATA_REG_LBA_LOW :: u32 where "ATA_REG_LBA_LOW = 3"
definition ATA_REG_LBA_MID :: u32 where "ATA_REG_LBA_MID = 4"
definition ATA_REG_LBA_HIGH :: u32 where "ATA_REG_LBA_HIGH = 5"
definition ATA_REG_DISK_SELECT :: u32 where "ATA_REG_DISK_SELECT = 6"
definition ATA_REG_COMMAND_STATUS :: u32 where "ATA_REG_COMMAND_STATUS = 7"

definition ATA_STATUS_FLAG_ERROR :: u32 where "ATA_STATUS_FLAG_ERROR = 0x01"
definition ATA_STATUS_FLAG_DRQ :: u32 where "ATA_STATUS_FLAG_DRQ = 0x08"
definition ATA_STATUS_FLAG_DEVICE_FAILURE :: u32 where "ATA_STATUS_FLAG_DEVICE_FAILURE = 0x20"
definition ATA_STATUS_FLAG_BUSY :: u32 where "ATA_STATUS_FLAG_BUSY = 0x80"

definition BUFFER_LENGTH :: u32 where "BUFFER_LENGTH = 65536"
definition BUFFER_LENGTH_IN_SECTORS :: u32 where
  "BUFFER_LENGTH_IN_SECTORS = BUFFER_LENGTH div SECTOR_SIZE"

text \<open>
  Modelled from the spec: the kernel headers (driver.h, sys/errno.h, sys/param.h) are
  not among the sources. The ISR "returns INT_CONTINUE to request IST dispatch or 0 to
  ignore"; the error kinds are EIO, EFAULT, EINTR and EINVAL; a partition's device name
  is "hd<N>d<K>p<PP>", nine bytes with its terminator. The numbers are those of the
  Prex headers.
\<close>

definition INT_CONTINUE :: u32 where "INT_CONTINUE = 2"
definition EINTR :: u32 where "EINTR = 4"
definition EIO :: u32 where "EIO = 5"
definition EFAULT :: u32 where "EFAULT = 14"
definition EINVAL :: u32 where "EINVAL = 22"
definition MAXDEVNAME :: nat where "MAXDEVNAME = 12"

subsection \<open>Data model\<close>

text \<open>\<open>int channel; /* 0 => primary, 1 => secondary */\<close>: the index into
  \<open>ata_controller.channel[2]\<close>.\<close>

datatype channel_t = Primary | Secondary

record ata_channel =
  base_port :: u32
  control_port :: u32
  dma_port :: u32

record ata_disk =
  channel :: channel_t
  slave :: u32
  identification_space :: "u8 list"
  serial_number :: "u8 list"
  firmware_revision :: "u8 list"
  model :: "u8 list"
  lba_supported :: bool
  dma_supported :: bool
  sector_capacity :: u32
  addressable_sector_count :: u64
  devname :: string

text \<open>A partition points back to its disk; the model holds the disk's value, which
  no code changes once \<open>setup_disk\<close> has filled it in. The fields of
  \<open>struct ata_partition\<close> and of \<open>struct irp\<close> carry a prefix, their C names being
  those of local variables of the functions below.\<close>

record ata_partition =
  part_disk :: ata_disk
  part_system_id :: u8
  part_start_lba :: u32
  part_sector_count :: u32
  part_devname :: string

text \<open>\<open>struct ata_device_handle\<close>: a kind tag and a union of two pointers.\<close>

datatype ata_device_handle =
  ATA_DEVICE_WHOLEDISK ata_disk
| ATA_DEVICE_PARTITION ata_partition

datatype io_cmd = IO_NONE | IO_READ | IO_WRITE

text \<open>\<open>irp.buf\<close> is a pointer; the only buffer the driver ever stores in it is the
  controller's bounce buffer.\<close>

datatype buf_ptr = NULL_buf | Controller_buffer

record irp =
  irp_cmd :: io_cmd
  irp_blkno :: u32
  irp_blksz :: u32
  irp_buf :: buf_ptr
  irp_ntries :: u32
  irp_error :: u32

text \<open>What crosses the port-I/O boundary, in order.\<close>

datatype io_event = Out8 u32 u8 | In8 u32 u8 | In32 u32 u32

text \<open>What can end the caller's sleep or happen during it: the disk's interrupt, or a
  signal delivered to the sleeping thread.\<close>

datatype wake = Irq | Signal

datatype sleep_result = SLP_SUCCESS | SLP_INTR

text \<open>
  One controller with the part of the kernel and of the hardware it touches.
  \<^item> \<open>controller_devname\<close>, \<open>channels\<close>, \<open>irp\<close>, \<open>active_disk\<close>, \<open>disk_list\<close> and
    \<open>buffer\<close> are the fields of \<open>struct ata_controller\<close> (\<open>active_disk = None\<close> is the
    NULL pointer, a device name is the characters before its terminator);
    \<open>partition_list\<close> collects the partition lists of its disks.
  \<^item> \<open>trace\<close> is the history of port accesses; \<open>dev_in8\<close> and \<open>dev_in32\<close> are the
    hardware: what a port returns, given the history so far.
  \<^item> \<open>pending\<close> is what will happen while a caller sleeps; \<open>iocomp\<close> says whether the
    completion event has been signalled.
  \<^item> \<open>kmem_map\<close> says whether a user range can be mapped; \<open>devices\<close> is the kernel's
    device registry.
  \<^item> \<open>issued\<close> records each command \<open>hdd_setup_io\<close> sends: its lba and sector count.
\<close>

record machine =
  controller_devname :: string
  channels :: "channel_t \<Rightarrow> ata_channel"
  irp :: irp
  active_disk :: "ata_disk option"
  disk_list :: "ata_disk list"
  partition_list :: "ata_partition list"
  buffer :: "u8 list"
  trace :: "io_event list"
  dev_in8 :: "io_event list \<Rightarrow> u32 \<Rightarrow> u8"
  dev_in32 :: "io_event list \<Rightarrow> u32 \<Rightarrow> u32"
  pending :: "wake list"
  iocomp :: bool
  kmem_map :: "u32 \<Rightarrow> u32 \<Rightarrow> bool"
  devices :: "(string \<times> ata_device_handle) list"
  issued :: "(u64 \<times> u32) list"

text \<open>A call either returns a value, or the system stops: a \<open>panic\<close> or failed
  \<open>ASSERT\<close>, a NULL pointer followed, a write past an array, or a sleeper that nothing
  will wake. Both carry the machine as the call left it.\<close>

datatype fault = Panic | Null_pointer | Overrun | Never_woken

type_synonym 'a result = "(fault \<times> machine) + ('a \<times> machine)"

subsection \<open>Register gateway\<close>

text \<open>Modelled from the spec: the port I/O primitives \<open>bus_write_8\<close>, \<open>bus_read_8\<close>
  and \<open>bus_read_32\<close> belong to the kernel; each is one access, appended to the trace.\<close>

definition bus_write_8 :: "u32 \<Rightarrow> u8 \<Rightarrow> machine \<Rightarrow> machine" where
  "bus_write_8 port val c = c\<lparr>trace := trace c @ [Out8 port val]\<rparr>"

definition bus_read_8 :: "u32 \<Rightarrow> machine \<Rightarrow> u8 \<times> machine" where
  "bus_read_8 port c =
     (let v = dev_in8 c (trace c) port in (v, c\<lparr>trace := trace c @ [In8 port v]\<rparr>))"

definition bus_read_32 :: "u32 \<Rightarrow> machine \<Rightarrow> u32 \<times> machine" where
  "bus_read_32 port c =
     (let v = dev_in32 c (trace c) port in (v, c\<lparr>trace := trace c @ [In32 port v]\<rparr>))"

definition ata_write :: "channel_t \<Rightarrow> u32 \<Rightarrow> u8 \<Rightarrow> machine \<Rightarrow> machine" where
  "ata_write channelnum reg val c = bus_write_8 (base_port (channels c channelnum) + reg) val c"

definition ata_read :: "channel_t \<Rightarrow> u32 \<Rightarrow> machine \<Rightarrow> u8 \<times> machine" where
  "ata_read channelnum reg c = bus_read_8 (base_port (channels c channelnum) + reg) c"

definition write_control :: "channel_t \<Rightarrow> u8 \<Rightarrow> machine \<Rightarrow> machine" where
  "write_control channelnum val c = bus_write_8 (control_port (channels c channelnum)) val c"

definition read_altstatus :: "channel_t \<Rightarrow> machine \<Rightarrow> u8 \<times> machine" where
  "read_altstatus channelnum c = bus_read_8 (control_port (channels c channelnum)) c"

definition ata_delay400 :: "channel_t \<Rightarrow> machine \<Rightarrow> machine" where
  "ata_delay400 channelnum c =
     snd (read_altstatus channelnum (snd (read_altstatus channelnum
       (snd (read_altstatus channelnum (snd (read_altstatus channelnum c)))))))"

text \<open>\<open>ata_wait\<close>: after the delay, poll until BUSY clears, at most \<open>0x80000000\<close>
  times; then give up with a message (the console is not modelled).\<close>

function ata_wait_loop :: "channel_t \<Rightarrow> u32 \<Rightarrow> machine \<Rightarrow> machine" where
  "ata_wait_loop channelnum i c =
     (if i < 0x80000000
      then (case read_altstatus channelnum c of (status, c1) \<Rightarrow>
              if ucast status AND ATA_STATUS_FLAG_BUSY = 0 then c1
              else ata_wait_loop channelnum (i + 1) c1)
      else c)"
  by pat_completeness auto

termination
proof (relation "measure (\<lambda>(channelnum, i, c). 2 ^ 31 - unat i)")
  show "wf (measure (\<lambda>(channelnum, i, c). 2 ^ 31 - unat i))"
    by simp
next
  fix channelnum :: channel_t and i :: u32 and c :: machine and x :: "u8 \<times> machine"
    and status :: u8 and c1 :: machine
  assume "i < 0x80000000"
  then have a: "unat i < 2 ^ 31"
    by (simp add: word_less_nat_alt)
  then have "unat (i + 1) = unat i + 1"
    by (simp add: unat_word_ariths)
  with a show "((channelnum, i + 1, c1), (channelnum, i, c))
      \<in> measure (\<lambda>(channelnum, i, c). 2 ^ 31 - unat i)"
    by simp
qed

declare ata_wait_loop.simps [simp del]

definition ata_wait :: "channel_t \<Rightarrow> machine \<Rightarrow> machine" where
  "ata_wait channelnum c = ata_wait_loop channelnum 0 (ata_delay400 channelnum c)"

text \<open>
  \<open>ata_pio_read\<close> reads \<open>count\<close> bytes, four at a time, lowest byte first, and
  stores them at \<open>buffer\<close>, which it advances. The model collects the bytes stored so
  far in \<open>stored\<close> and returns them; the caller puts them where the C's pointer
  points. With the \<open>ASSERT\<close> passed, \<open>count\<close> is a multiple of four and never lies
  strictly between 0 and 4.
\<close>

function ata_pio_read_loop :: "channel_t \<Rightarrow> u32 \<Rightarrow> u8 list \<Rightarrow> machine \<Rightarrow> u8 list result" where
  "ata_pio_read_loop channelnum count stored c =
     (if count = 0 then Inr (stored, c)
      else if count < 4 then Inl (Panic, c)
      else (case bus_read_32 (base_port (channels c channelnum) + ATA_REG_DATA) c of
              (v, c1) \<Rightarrow>
                ata_pio_read_loop channelnum (count - 4)
                  (stored @ [ucast (v AND 0xff), ucast (drop_bit 8 v AND 0xff),
                             ucast (drop_bit 16 v AND 0xff), ucast (drop_bit 24 v AND 0xff)])
                  c1))"
  by pat_completeness auto
termination
proof (relation "measure (\<lambda>(channelnum, count, stored, c). unat count)")
  show "wf (measure (\<lambda>(channelnum, count, stored, c). unat count))"
    by simp
next
  fix channelnum :: channel_t and count :: u32 and stored :: "u8 list" and c :: machine
    and x :: "u32 \<times> machine" and v :: u32 and c1 :: machine
  assume "count \<noteq> 0" and "\<not> count < 4"
  then have "4 \<le> count"
    by simp
  then have "unat (count - 4) = unat count - 4" and "4 \<le> unat count"
    by (simp_all add: unat_sub word_le_nat_alt)
  then show "((channelnum, count - 4,
               stored @ [ucast (v AND 0xff), ucast (drop_bit 8 v AND 0xff),
                         ucast (drop_bit 16 v AND 0xff), ucast (drop_bit 24 v AND 0xff)], c1),
              (channelnum, count, stored, c))
      \<in> measure (\<lambda>(channelnum, count, stored, c). unat count)"
    by simp
qed

declare ata_pio_read_loop.simps [simp del]

definition ata_pio_read :: "channel_t \<Rightarrow> u32 \<Rightarrow> machine \<Rightarrow> u8 list result" where
  "ata_pio_read channelnum count c =
     (if count AND 3 \<noteq> 0 then Inl (Panic, c) else ata_pio_read_loop channelnum count [] c)"

subsection \<open>Interrupt service routine and thread\<close>

definition hdc_isr :: "machine \<Rightarrow> u32 result" where
  "hdc_isr c =
     (case active_disk c of
        None \<Rightarrow> Inl (Null_pointer, c)
      | Some disk \<Rightarrow>
          (case read_altstatus (channel disk) c of (status, c1) \<Rightarrow>
             if ucast status AND (ATA_STATUS_FLAG_DRQ OR ATA_STATUS_FLAG_DEVICE_FAILURE
                                   OR ATA_STATUS_FLAG_ERROR) \<noteq> 0
             then Inr (INT_CONTINUE, c1)
             else Inr (0, c1)))"

text \<open>Modelled from the spec: \<open>sched_wakeup\<close> is the kernel's; it signals the
  completion event the caller sleeps on.\<close>

definition sched_wakeup :: "machine \<Rightarrow> machine" where
  "sched_wakeup c = c\<lparr>iocomp := True\<rparr>"

text \<open>Storing \<open>bytes\<close> at the start of the buffer \<open>irp.buf\<close> points to.\<close>

definition store_irp_buf :: "u8 list \<Rightarrow> machine \<Rightarrow> unit result" where
  "store_irp_buf bytes c =
     (case irp_buf (irp c) of
        NULL_buf \<Rightarrow> (if bytes = [] then Inr ((), c) else Inl (Null_pointer, c))
      | Controller_buffer \<Rightarrow>
          if length bytes \<le> length (buffer c)
          then Inr ((), c\<lparr>buffer := bytes @ drop (length bytes) (buffer c)\<rparr>)
          else Inl (Overrun, c))"

definition hdc_ist :: "machine \<Rightarrow> unit result" where
  "hdc_ist c =
     (case active_disk c of
        None \<Rightarrow> Inl (Null_pointer, c)
      | Some disk \<Rightarrow>
          (case ata_read (channel disk) ATA_REG_COMMAND_STATUS c of (status, c1) \<Rightarrow>
             let c2 = c1\<lparr>active_disk := None\<rparr> in
             if ucast status AND (ATA_STATUS_FLAG_ERROR OR ATA_STATUS_FLAG_DEVICE_FAILURE) \<noteq> 0
             then (case ata_read (channel disk) ATA_REG_ERR c2 of (err, c3) \<Rightarrow>
                     Inr ((), sched_wakeup
                       (c3\<lparr>irp := (irp c3)\<lparr>irp_error :=
                          0x80000000 OR push_bit 16 (ucast status) OR ucast err\<rparr>\<rparr>)))
             else
               let c3 = c2\<lparr>irp := (irp c2)\<lparr>irp_error := 0\<rparr>\<rparr> in
               (case irp_cmd (irp c3) of
                  IO_READ \<Rightarrow>
                    (case ata_pio_read (channel disk) (irp_blksz (irp c3) * SECTOR_SIZE) c3 of
                       Inl f \<Rightarrow> Inl f
                     | Inr (bytes, c4) \<Rightarrow>
                         (case store_irp_buf bytes c4 of
                            Inl f \<Rightarrow> Inl f
                          | Inr (u, c5) \<Rightarrow> Inr ((), sched_wakeup c5)))
                | IO_WRITE \<Rightarrow> Inl (Panic, c3)
                | IO_NONE \<Rightarrow> Inl (Panic, c3))))"

subsection \<open>Issuing a command\<close>

definition hdd_setup_io :: "ata_disk \<Rightarrow> io_cmd \<Rightarrow> u64 \<Rightarrow> u32 \<Rightarrow> machine \<Rightarrow> unit result" where
  "hdd_setup_io disk cmd lba sector_count c =
     (let c0 = c\<lparr>active_disk := Some disk\<rparr> in
      case cmd of
        IO_READ \<Rightarrow>
          let c1 = ata_write (channel disk) ATA_REG_DISK_SELECT
                     (ucast (0x40 OR push_bit 4 (slave disk))) c0;
              final_cmd = 0x24;
              c2 = ata_write (channel disk) ATA_REG_SECTOR_COUNT
                     (ucast (drop_bit 8 sector_count AND 0xff)) c1;
              c3 = ata_write (channel disk) ATA_REG_LBA_LOW (ucast (drop_bit 24 lba AND 0xff)) c2;
              c4 = ata_write (channel disk) ATA_REG_LBA_MID (ucast (drop_bit 32 lba AND 0xff)) c3;
              c5 = ata_write (channel disk) ATA_REG_LBA_HIGH (ucast (drop_bit 40 lba AND 0xff)) c4;
              c6 = ata_write (channel disk) ATA_REG_SECTOR_COUNT (ucast (sector_count AND 0xff)) c5;
              c7 = ata_write (channel disk) ATA_REG_LBA_LOW (ucast (lba AND 0xff)) c6;
              c8 = ata_write (channel disk) ATA_REG_LBA_MID (ucast (drop_bit 8 lba AND 0xff)) c7;
              c9 = ata_write (channel disk) ATA_REG_LBA_HIGH (ucast (drop_bit 16 lba AND 0xff)) c8;
              c10 = ata_write (channel disk) ATA_REG_COMMAND_STATUS final_cmd c9
          in Inr ((), c10\<lparr>issued := issued c10 @ [(lba, sector_count)]\<rparr>)
      | IO_WRITE \<Rightarrow> Inl (Panic, c0)
      | IO_NONE \<Rightarrow> Inl (Panic, c0))"

subsection \<open>Sleeping on the completion event\<close>

text \<open>Modelled from the spec: the kernel's two-stage interrupt facility, "an ISR invoked
  in interrupt context" and "an IST scheduled by the kernel whenever the ISR returns a
  dispatch signal".\<close>

definition interrupt :: "machine \<Rightarrow> unit result" where
  "interrupt c =
     (case hdc_isr c of
        Inl f \<Rightarrow> Inl f
      | Inr (r, c1) \<Rightarrow> if r = INT_CONTINUE then hdc_ist c1 else Inr ((), c1))"

text \<open>Modelled from the spec: \<open>sched_sleep(event) -> {OK, SLP_INTR}\<close> is the kernel's.
  The sleeper stays asleep through interrupts that do not signal the event, is woken by
  the one that does, and returns \<open>SLP_INTR\<close> on a signal; when nothing more is going
  to happen it sleeps for ever ("a lost interrupt wedges the controller").\<close>

fun sched_sleep_on :: "wake list \<Rightarrow> machine \<Rightarrow> sleep_result result" where
  "sched_sleep_on [] c = Inl (Never_woken, c\<lparr>pending := []\<rparr>)"
| "sched_sleep_on (Signal # ws) c = Inr (SLP_INTR, c\<lparr>pending := ws\<rparr>)"
| "sched_sleep_on (Irq # ws) c =
     (case interrupt (c\<lparr>pending := ws\<rparr>) of
        Inl f \<Rightarrow> Inl f
      | Inr (u, c1) \<Rightarrow>
          if iocomp c1 then Inr (SLP_SUCCESS, c1) else sched_sleep_on ws c1)"

definition sched_sleep :: "machine \<Rightarrow> sleep_result result" where
  "sched_sleep c = sched_sleep_on (pending c) (c\<lparr>iocomp := False\<rparr>)"

subsection \<open>Block device facade\<close>

text \<open>\<open>hdd_rw\<close>: the \<open>irp\<close> argument is always the controller's own; the \<open>int\<close>
  block number is converted to the \<open>uint64_t\<close> parameter of \<open>hdd_setup_io\<close> with its
  sign.\<close>

definition hdd_rw :: "ata_disk \<Rightarrow> io_cmd \<Rightarrow> buf_ptr \<Rightarrow> u32 \<Rightarrow> u32 \<Rightarrow> machine \<Rightarrow> u32 result" where
  "hdd_rw disk cmd buf block_count blkno c =
     (let c1 = c\<lparr>irp := (irp c)\<lparr>irp_cmd := cmd, irp_ntries := 0, irp_error := 0,
                               irp_blkno := blkno, irp_blksz := block_count,
                               irp_buf := buf\<rparr>\<rparr>
      in case hdd_setup_io disk (irp_cmd (irp c1)) (scast (irp_blkno (irp c1)))
                (irp_blksz (irp c1)) c1 of
           Inl f \<Rightarrow> Inl f
         | Inr (u, c2) \<Rightarrow>
             (case sched_sleep c2 of
                Inl f \<Rightarrow> Inl f
              | Inr (r, c3) \<Rightarrow>
                  if r = SLP_INTR then Inr (EINTR, c3) else Inr (irp_error (irp c3), c3)))"

fun adjust_blkno :: "ata_device_handle \<Rightarrow> u32 \<Rightarrow> ata_disk \<times> u32 \<times> u32" where
  "adjust_blkno (ATA_DEVICE_WHOLEDISK wholedisk) blkno =
     (wholedisk, blkno, ucast (addressable_sector_count wholedisk))"
| "adjust_blkno (ATA_DEVICE_PARTITION part) blkno =
     (part_disk part, blkno + part_start_lba part, part_sector_count part)"

text \<open>
  The loop of \<open>hdd_read\<close>. \<open>kbuf\<close> is the kernel alias of the caller's buffer: the model
  holds the bytes stored through it so far, the write position being their end. The
  result is the return value, the new \<open>*nbyte\<close> and those bytes.
\<close>

function hdd_read_loop ::
  "ata_disk \<Rightarrow> u32 \<Rightarrow> u32 \<Rightarrow> u32 \<Rightarrow> u8 list \<Rightarrow> machine \<Rightarrow> (u32 \<times> u32 \<times> u8 list) result" where
  "hdd_read_loop disk sector_count blkno transferred_total kbuf c =
     (if sector_count > 0
      then
        let transfer_sector_count =
              (if sector_count > BUFFER_LENGTH_IN_SECTORS then BUFFER_LENGTH_IN_SECTORS
               else sector_count);
            transfer_byte_count = SECTOR_SIZE * transfer_sector_count
        in case hdd_rw disk IO_READ Controller_buffer transfer_sector_count blkno c of
             Inl f \<Rightarrow> Inl f
           | Inr (err, c1) \<Rightarrow>
               if err \<noteq> 0 then Inr ((EIO, transferred_total, kbuf), c1)
               else hdd_read_loop disk (sector_count - transfer_sector_count)
                      (blkno + transfer_sector_count)
                      (transferred_total + transfer_byte_count)
                      (kbuf @ take (unat transfer_byte_count) (buffer c1)) c1
      else Inr ((0, transferred_total, kbuf), c))"
  by pat_completeness auto
termination
proof (relation "measure (\<lambda>(disk, sector_count, blkno, total, kbuf, c). unat sector_count)")
  show "wf (measure (\<lambda>(disk, sector_count, blkno, total, kbuf, c). unat sector_count))"
    by simp
next
  fix disk :: ata_disk and sector_count blkno transferred_total :: u32 and kbuf :: "u8 list"
    and c :: machine and x xa :: u32 and x2 :: "u32 \<times> machine" and xb :: u32 and y :: machine
  assume pos: "0 < sector_count"
    and x: "x = (if BUFFER_LENGTH_IN_SECTORS < sector_count then BUFFER_LENGTH_IN_SECTORS
                 else sector_count)"
  have "0 < x" and "x \<le> sector_count"
    using pos by (auto simp: x BUFFER_LENGTH_IN_SECTORS_def BUFFER_LENGTH_def SECTOR_SIZE_def)
  then have "unat (sector_count - x) < unat sector_count"
    by (simp add: unat_sub word_le_nat_alt word_less_nat_alt)
  then show "((disk, sector_count - x, blkno + x, transferred_total + xa,
               kbuf @ take (unat xa) (buffer y), y),
              (disk, sector_count, blkno, transferred_total, kbuf, c))
      \<in> measure (\<lambda>(disk, sector_count, blkno, total, kbuf, c). unat sector_count)"
    by simp
qed

declare hdd_read_loop.simps [simp del]

definition hdd_read ::
  "ata_device_handle \<Rightarrow> u32 \<Rightarrow> u32 \<Rightarrow> u32 \<Rightarrow> machine \<Rightarrow> (u32 \<times> u32 \<times> u8 list) result" where
  "hdd_read dev buf nbyte blkno c =
     (let sector_count = nbyte div SECTOR_SIZE
      in case adjust_blkno dev blkno of
           (disk, blkno1, sector_limit) \<Rightarrow>
             if blkno1 <s 0 \<or> blkno1 + sector_count \<ge> sector_limit
             then Inr ((EIO, nbyte, []), c)
             else if \<not> kmem_map c buf nbyte then Inr ((EFAULT, nbyte, []), c)
             else hdd_read_loop disk sector_count blkno1 0 [] c)"

definition hdd_write ::
  "ata_device_handle \<Rightarrow> u32 \<Rightarrow> u32 \<Rightarrow> u32 \<Rightarrow> machine \<Rightarrow> (u32 \<times> u32 \<times> u8 list) result" where
  "hdd_write dev buf nbyte blkno c = Inr ((EINVAL, nbyte, []), c)"

subsection \<open>Probing: partitions and disks\<close>

text \<open>
  \<open>memcpy\<close> into an integer and a load through a cast pointer read the bytes in the
  byte order of the machine the kernel is built for. That order is not in the driver;
  the probing functions take it as a parameter.
\<close>

datatype byte_order = Little_endian | Big_endian

definition load_native :: "byte_order \<Rightarrow> u8 list \<Rightarrow> 'a::len word" where
  "load_native bo bytes =
     (case bo of
        Little_endian \<Rightarrow> foldr (\<lambda>b acc. ucast b OR push_bit 8 acc) bytes 0
      | Big_endian \<Rightarrow> foldl (\<lambda>acc b. push_bit 8 acc OR ucast b) 0 bytes)"

definition read_during_setup ::
  "ata_disk \<Rightarrow> u64 \<Rightarrow> u32 \<Rightarrow> machine \<Rightarrow> (u32 \<times> u8 list) result" where
  "read_during_setup disk lba count c =
     (case hdd_setup_io disk IO_READ lba count c of
        Inl f \<Rightarrow> Inl f
      | Inr (u, c1) \<Rightarrow>
          (case ata_read (channel disk) ATA_REG_COMMAND_STATUS (ata_wait (channel disk) c1) of
             (status, c2) \<Rightarrow>
               if ucast status AND (ATA_STATUS_FLAG_ERROR OR ATA_STATUS_FLAG_DEVICE_FAILURE) \<noteq> 0
               then Inr ((EIO, []), snd (ata_read (channel disk) ATA_REG_ERR c2))
               else (case ata_pio_read (channel disk) (count * SECTOR_SIZE) c2 of
                       Inl f \<Rightarrow> Inl f
                     | Inr (bytes, c3) \<Rightarrow> Inr ((0, bytes), c3))))"

text \<open>Modelled from the spec: \<open>device_create(driver, name, flags) -> device_t\<close> is the
  kernel's device registry; the handle stored in the new device's private area is kept
  with the name.\<close>

definition device_create :: "string \<Rightarrow> ata_device_handle \<Rightarrow> machine \<Rightarrow> machine" where
  "device_create name handle c = c\<lparr>devices := devices c @ [(name, handle)]\<rparr>"

definition strlcpy :: "string \<Rightarrow> nat \<Rightarrow> string" where
  "strlcpy src siz = take (siz - 1) src"

definition strnlen :: "string \<Rightarrow> nat \<Rightarrow> nat" where
  "strnlen str maxlen = min (length str) maxlen"

text \<open>The name of the partition in slot \<open>slot\<close> (the C's \<open>partition\<close>): the disk's name copied into
  \<open>char devname[MAXDEVNAME]\<close>, then four bytes written after it, which have to fit.\<close>

definition partition_devname :: "string \<Rightarrow> int \<Rightarrow> string option" where
  "partition_devname disk_devname slot =
     (let copied = strlcpy disk_devname MAXDEVNAME;
          p = strnlen copied MAXDEVNAME
      in if p + 3 < MAXDEVNAME
         then Some (copied @ [CHR ''p'', char_of (of_char CHR ''0'' + slot div 10),
                              char_of (of_char CHR ''0'' + slot mod 10)])
         else None)"

text \<open>The loop over the four slots of the partition table in \<open>sector0\<close>; an entry is
  sixteen bytes, \<open>system_id\<close> at offset 4, \<open>start_lba\<close> at 8 and \<open>sector_count\<close> at
  12.\<close>

function setup_partitions_loop ::
  "byte_order \<Rightarrow> ata_disk \<Rightarrow> u8 list \<Rightarrow> int \<Rightarrow> machine \<Rightarrow> unit result" where
  "setup_partitions_loop bo disk sector0 slot c =
     (if slot < 4 \<and> 0 \<le> slot
      then
        let p = drop (0x1be + nat slot * 16) sector0;
            p_system_id = p ! 4;
            p_start_lba = load_native bo (take 4 (drop 8 p));
            p_sector_count = load_native bo (take 4 (drop 12 p))
        in if p_start_lba = 0 \<or> p_sector_count = 0 \<or> p_system_id = 0
           then setup_partitions_loop bo disk sector0 (slot + 1) c
           else (case partition_devname (devname disk) slot of
                   None \<Rightarrow> Inl (Overrun, c)
                 | Some name \<Rightarrow>
                     let part = \<lparr>part_disk = disk, part_system_id = p_system_id,
                                 part_start_lba = p_start_lba,
                                 part_sector_count = p_sector_count, part_devname = name\<rparr>;
                         c1 = c\<lparr>partition_list := partition_list c @ [part]\<rparr>;
                         c2 = device_create name (ATA_DEVICE_PARTITION part) c1
                     in setup_partitions_loop bo disk sector0 (slot + 1) c2)
      else Inr ((), c))"
  by pat_completeness auto
termination
  by (relation "measure (\<lambda>(bo, disk, sector0, slot, c). nat (4 - slot))") auto

declare setup_partitions_loop.simps [simp del]

definition setup_partitions :: "byte_order \<Rightarrow> ata_disk \<Rightarrow> machine \<Rightarrow> unit result" where
  "setup_partitions bo disk c =
     (case read_during_setup disk 0 1 c of
        Inl f \<Rightarrow> Inl f
      | Inr ((r, sector0), c1) \<Rightarrow>
          if r \<noteq> 0 then Inr ((), c1)
          else if (0xaa55 :: u16) = load_native bo (take 2 (drop (unat SECTOR_SIZE - 2) sector0))
          then setup_partitions_loop bo disk sector0 0 c1
          else Inr ((), c1))"

text \<open>\<open>fixup_string_endianness\<close> swaps the bytes of each 16-bit word; \<open>size\<close> is the
  length of the array it is given. With an odd size the C loop never reaches 0 and
  runs past the array.\<close>

fun fixup_string_endianness :: "u8 list \<Rightarrow> u8 list option" where
  "fixup_string_endianness [] = Some []"
| "fixup_string_endianness [a] = None"
| "fixup_string_endianness (a # b # rest) =
     (case fixup_string_endianness rest of
        None \<Rightarrow> None
      | Some swapped \<Rightarrow> Some (b # a # swapped))"

text \<open>\<open>setup_disk\<close> returns 0 for a disk it has added and \<open>-1\<close> for one it has given
  up on. \<open>disknum\<close> is 0 to 3; its high bit selects one of the two channels.\<close>

definition setup_disk :: "byte_order \<Rightarrow> u32 \<Rightarrow> machine \<Rightarrow> u32 result" where
  "setup_disk bo disknum c =
     (if \<not> disknum < 4 then Inl (Overrun, c)
      else
        let channelnum = (if drop_bit 1 disknum = 0 then Primary else Secondary);
            slavenum = disknum AND 1;
            c1 = ata_delay400 channelnum
                   (ata_write channelnum ATA_REG_DISK_SELECT (ucast (0xA0 OR push_bit 4 slavenum)) c);
            c2 = ata_write channelnum ATA_REG_LBA_HIGH 0
                   (ata_write channelnum ATA_REG_LBA_MID 0
                     (ata_write channelnum ATA_REG_LBA_LOW 0
                       (ata_write channelnum ATA_REG_SECTOR_COUNT 0 c1)));
            c3 = ata_delay400 channelnum (ata_write channelnum ATA_REG_COMMAND_STATUS 0xEC c2)
        in case ata_read channelnum ATA_REG_COMMAND_STATUS c3 of
             (accepted, c4) \<Rightarrow>
               if accepted = 0 then Inr (- 1, c4)
               else
                 (case read_altstatus channelnum (ata_wait channelnum c4) of
                    (status, c5) \<Rightarrow>
                      if ucast status AND ATA_STATUS_FLAG_ERROR \<noteq> 0 then Inr (- 1, c5)
                      else
                        (case ata_pio_read channelnum 512 c5 of
                           Inl f \<Rightarrow> Inl f
                         | Inr (ids, c6) \<Rightarrow>
                             let lba = (ids ! 99 AND 2 \<noteq> 0);
                                 dma = (ids ! 99 AND 1 \<noteq> 0);
                                 capacity = load_native bo (take 4 (drop 114 ids))
                             in if \<not> lba then Inr (- 1, c6)
                                else if \<not> dma then Inr (- 1, c6)
                                else
                                  let lba28_count = (load_native bo (take 4 (drop 120 ids)) :: u32);
                                      count =
                                        (if lba28_count = 0x0fffffff
                                         then (load_native bo (take 8 (drop 200 ids)) :: u64)
                                         else ucast lba28_count)
                                  in (case (fixup_string_endianness (take 10 (drop 20 ids)),
                                           fixup_string_endianness (take 8 (drop 46 ids)),
                                           fixup_string_endianness (take 40 (drop 54 ids))) of
                                       (Some serial, Some firmware, Some model_name) \<Rightarrow>
                                         let disk = \<lparr>channel = channelnum, slave = slavenum,
                                               identification_space = ids,
                                               serial_number = serial,
                                               firmware_revision = firmware,
                                               model = model_name,
                                               lba_supported = lba, dma_supported = dma,
                                               sector_capacity = capacity,
                                               addressable_sector_count = count,
                                               devname = take 3 (controller_devname c6)
                                                 @ [CHR ''d'',
                                                    char_of (of_char CHR ''0'' + unat disknum)]\<rparr>;
                                             c7 = c6\<lparr>disk_list := disk_list c6 @ [disk]\<rparr>;
                                             c8 = device_create (devname disk)
                                                    (ATA_DEVICE_WHOLEDISK disk) c7
                                         in (case setup_partitions bo disk c8 of
                                               Inl f \<Rightarrow> Inl f
                                             | Inr (u, c9) \<Rightarrow> Inr (0, c9))
                                     | _ \<Rightarrow> Inl (Overrun, c6)))))"

subsection \<open>A controller in legacy mode, for running the driver\<close>

definition legacy_channels :: "channel_t \<Rightarrow> ata_channel" where
  "legacy_channels channelnum =
     (case channelnum of
        Primary \<Rightarrow> \<lparr>base_port = 0x1f0, control_port = 0x1f0 + 0x206, dma_port = 0\<rparr>
      | Secondary \<Rightarrow> \<lparr>base_port = 0x170, control_port = 0x170 + 0x206, dma_port = 8\<rparr>)"

definition idle_irp :: irp where
  "idle_irp = \<lparr>irp_cmd = IO_NONE, irp_blkno = 0, irp_blksz = 0, irp_buf = NULL_buf,
               irp_ntries = 0, irp_error = 0\<rparr>"

text \<open>The controller \<open>hd0\<close> as \<open>setup_controller\<close> leaves it before it probes, on
  hardware that answers a byte read with \<open>in8\<close> and a data read with \<open>in32\<close>, and with
  \<open>ws\<close> about to happen.\<close>

definition mock_controller ::
  "(io_event list \<Rightarrow> u32 \<Rightarrow> u8) \<Rightarrow> (io_event list \<Rightarrow> u32 \<Rightarrow> u32) \<Rightarrow> wake list \<Rightarrow> machine" where
  "mock_controller in8 in32 ws =
     \<lparr>controller_devname = ''hd0'', channels = legacy_channels, irp = idle_irp,
      active_disk = None, disk_list = [], partition_list = [],
      buffer = replicate 65536 0, trace = [], dev_in8 = in8, dev_in32 = in32,
      pending = ws, iocomp = False, kmem_map = (\<lambda>buf n. True), devices = [],
      issued = []\<rparr>"

text \<open>Hardware that answers every read with \<open>v\<close>; and a disk that reports an error:
  status \<open>0x41\<close> (ERROR set) everywhere but in the ERR register, which reads \<open>0x04\<close>.\<close>

definition answering :: "'a \<Rightarrow> io_event list \<Rightarrow> u32 \<Rightarrow> 'a" where
  "answering v tr port = v"

definition failing_disk :: "io_event list \<Rightarrow> u32 \<Rightarrow> u8" where
  "failing_disk tr port = (if port = 0x1f1 then 0x04 else 0x41)"

definition mock_disk :: ata_disk where
  "mock_disk =
     \<lparr>channel = Primary, slave = 0, identification_space = [], serial_number = [],
      firmware_revision = [], model = [], lba_supported = True, dma_supported = True,
      sector_capacity = 0, addressable_sector_count = 1000000, devname = ''hd0d0''\<rparr>"

definition mock_partition :: "u32 \<Rightarrow> u32 \<Rightarrow> ata_partition" where
  "mock_partition start count =
     \<lparr>part_disk = mock_disk, part_system_id = 0x83, part_start_lba = start,
      part_sector_count = count, part_devname = ''hd0d0p00''\<rparr>"

text \<open>The same controller when the caller's buffer cannot be mapped: \<open>kmem_map\<close>
  returns \<open>NULL\<close> for every buffer.\<close>

definition unmappable :: "u32 \<Rightarrow> u32 \<Rightarrow> bool" where
  "unmappable buf n = False"

definition unmapped_controller ::
  "(io_event list \<Rightarrow> u32 \<Rightarrow> u8) \<Rightarrow> (io_event list \<Rightarrow> u32 \<Rightarrow> u32) \<Rightarrow> wake list \<Rightarrow> machine" where
  "unmapped_controller in8 in32 ws = (mock_controller in8 in32 ws)\<lparr>kmem_map := unmappable\<rparr>"

text \<open>Hardware that hands out a disk image: the data port's \<open>k\<close>-th read since the
  trace began returns word \<open>k\<close> of \<open>ws\<close> (and 0 past its end). \<open>word_bytes\<close> are the
  four bytes \<open>ata_pio_read\<close> stores for a word.\<close>

fun data_read :: "io_event \<Rightarrow> bool" where
  "data_read (In32 port v) = True"
| "data_read (In8 port v) = False"
| "data_read (Out8 port v) = False"

definition data_reads :: "io_event list \<Rightarrow> nat" where
  "data_reads tr = length (filter data_read tr)"

definition word_bytes :: "u32 \<Rightarrow> u8 list" where
  "word_bytes v = [ucast (v AND 0xff), ucast (drop_bit 8 v AND 0xff),
                   ucast (drop_bit 16 v AND 0xff), ucast (drop_bit 24 v AND 0xff)]"

definition sector_image :: "u32 list \<Rightarrow> io_event list \<Rightarrow> u32 \<Rightarrow> u32" where
  "sector_image ws tr port = (if data_reads tr < length ws then ws ! data_reads tr else 0)"

text \<open>An identification space with LBA and DMA supported (byte 99 is 3), the lba28 count
  \<open>0x0FFFFFFF\<close> at bytes 120..123 and the lba48 count \<open>0x20000000\<close> at bytes 200..207;
  and a sector 0 with the signature \<open>55 AA\<close> at bytes 510 and 511, slot 1 holding a
  partition of type \<open>0x83\<close> that starts at sector 2048 and has 1000 sectors, slot 2
  holding a start and a count but the type 0, and slots 0 and 3 empty.\<close>

definition identify_words :: "u32 list" where
  "identify_words = replicate 24 0 @ [0x03000000] @ replicate 5 0 @ [0x0FFFFFFF]
                    @ replicate 19 0 @ [0x20000000, 0] @ replicate 76 0"

definition mbr_words :: "u32 list" where
  "mbr_words = replicate 116 0 @ [0x00830000, 0x08000000, 0x03E80000, 0, 0, 0x10000000, 0x00080000]
               @ replicate 4 0 @ [0xAA550000]"

subsection \<open>Vocabulary of the properties\<close>

text \<open>Byte \<open>k\<close> of a number: \<open>(n >> 8 * k) & 0xFF\<close>.\<close>

definition byte_of :: "nat \<Rightarrow> nat \<Rightarrow> u8" where
  "byte_of n k = of_nat (n div 2 ^ (8 * k) mod 256)"

text \<open>The machine a call ends in, whether it returned or not.\<close>

definition final :: "'a result \<Rightarrow> machine" where
  "final r = (case r of Inl (f, c) \<Rightarrow> c | Inr (v, c) \<Rightarrow> c)"

text \<open>The machine once \<open>hdd_rw\<close> has filled in the request and sent the read command
  for \<open>block_count\<close> sectors at \<open>blkno\<close>, the caller about to sleep.\<close>

definition issue_read :: "ata_disk \<Rightarrow> u32 \<Rightarrow> u32 \<Rightarrow> machine \<Rightarrow> machine" where
  "issue_read disk block_count blkno c =
     final (hdd_setup_io disk IO_READ (scast blkno) block_count
       (c\<lparr>irp := (irp c)\<lparr>irp_cmd := IO_READ, irp_ntries := 0, irp_error := 0,
                            irp_blkno := blkno, irp_blksz := block_count,
                            irp_buf := Controller_buffer\<rparr>\<rparr>))"

text \<open>Two calls leave the same machine but for the port trace; or but for the trace, the
  request, \<open>active_disk\<close>, the contents of the bounce buffer and the state of the
  sleeper.\<close>

definition only_io :: "machine \<Rightarrow> machine \<Rightarrow> bool" where
  "only_io c c1 \<longleftrightarrow> c1 = c\<lparr>trace := trace c1\<rparr>"

definition undisturbed :: "machine \<Rightarrow> machine \<Rightarrow> bool" where
  "undisturbed c c1 \<longleftrightarrow>
     c1 = c\<lparr>trace := trace c1, irp := irp c1, active_disk := active_disk c1,
            buffer := buffer c1, pending := pending c1, iocomp := iocomp c1\<rparr>
     \<and> length (buffer c1) = length (buffer c)"

text \<open>The sizes of the chunks of a transfer of \<open>N\<close> sectors: chunk \<open>k\<close> takes what
  remains after \<open>k\<close> full chunks, at most 128 sectors, and there are
  \<open>ceil (N / 128)\<close> chunks.\<close>

definition chunk_sizes :: "nat \<Rightarrow> nat list" where
  "chunk_sizes N = map (\<lambda>k. min (N - 128 * k) 128) [0..<(N + 127) div 128]"

text \<open>The size \<open>hdd_read\<close> chooses for the next chunk.\<close>

definition transfer_size :: "u32 \<Rightarrow> u32" where
  "transfer_size sector_count =
     (if BUFFER_LENGTH_IN_SECTORS < sector_count then BUFFER_LENGTH_IN_SECTORS else sector_count)"

text \<open>What a returned loop of \<open>hdd_read\<close> has done: \<open>chunks\<close> are the commands it
  issued; on success their sizes are those of the plan, on failure the last one failed
  in \<open>hdd_rw\<close>; the byte count and the bytes stored are those of the chunks
  completed.\<close>

definition loop_outcome ::
  "ata_disk \<Rightarrow> u32 \<Rightarrow> u32 \<Rightarrow> u8 list \<Rightarrow> machine \<Rightarrow> u32 \<Rightarrow> u32 \<Rightarrow> u8 list \<Rightarrow> machine
   \<Rightarrow> (u64 \<times> u32) list \<Rightarrow> bool" where
  "loop_outcome disk sc t k c r n1 data c1 chunks \<longleftrightarrow>
     issued c1 = issued c @ chunks
     \<and> (r = 0 \<or> r = EIO)
     \<and> (r = 0 \<longrightarrow> map (unat \<circ> snd) chunks = chunk_sizes (unat sc))
     \<and> (r \<noteq> 0 \<longrightarrow> chunks \<noteq> []
           \<and> (\<exists>n b c0 err. hdd_rw disk IO_READ Controller_buffer n b c0 = Inr (err, c1)
                            \<and> err \<noteq> 0))
     \<and> sum_list (map (unat \<circ> snd) chunks) \<le> unat sc
     \<and> n1 = t + SECTOR_SIZE *
              of_nat (sum_list (map (unat \<circ> snd) (if r = 0 then chunks else butlast chunks)))
     \<and> length data = length k + 512 *
              sum_list (map (unat \<circ> snd) (if r = 0 then chunks else butlast chunks))"

text \<open>Hardware whose status always shows DRQ and neither ERROR nor DEVICE_FAILURE.\<close>

definition healthy :: "machine \<Rightarrow> bool" where
  "healthy c \<longleftrightarrow>
     (\<forall>tr port. bit (dev_in8 c tr port) 3 \<and> \<not> bit (dev_in8 c tr port) 0
                 \<and> \<not> bit (dev_in8 c tr port) 5)"

text \<open>
  The partition table as the spec describes it. \<open>le_nat\<close> is the little-endian value of
  a run of bytes. Slot \<open>k\<close> of the table in \<open>sector0\<close> is the sixteen bytes at
  \<open>0x1BE + 16 * k\<close>, with \<open>system_id\<close> at offset 4, \<open>start_lba\<close> at offset 8 and
  \<open>sector_count\<close> at offset 12; it is retained when none of the three is zero; a
  retained slot becomes a partition named after the disk, with \<open>p\<close> and the two decimal
  digits of \<open>k\<close>; and \<open>mbr_partitions\<close> are the partitions of the retained slots among
  the four, in order, when the 16-bit value at offset 510 is \<open>0xAA55\<close>, and none
  otherwise.
\<close>

definition le_nat :: "u8 list \<Rightarrow> nat" where
  "le_nat bytes = foldr (\<lambda>b n. unat b + 256 * n) bytes 0"

definition slot_system_id :: "u8 list \<Rightarrow> nat \<Rightarrow> u8" where
  "slot_system_id sector0 k = sector0 ! (0x1BE + 16 * k + 4)"

definition slot_start_lba :: "u8 list \<Rightarrow> nat \<Rightarrow> nat" where
  "slot_start_lba sector0 k = le_nat (take 4 (drop (0x1BE + 16 * k + 8) sector0))"

definition slot_sector_count :: "u8 list \<Rightarrow> nat \<Rightarrow> nat" where
  "slot_sector_count sector0 k = le_nat (take 4 (drop (0x1BE + 16 * k + 12) sector0))"

definition slot_retained :: "u8 list \<Rightarrow> nat \<Rightarrow> bool" where
  "slot_retained sector0 k \<longleftrightarrow>
     slot_start_lba sector0 k \<noteq> 0 \<and> slot_sector_count sector0 k \<noteq> 0
     \<and> slot_system_id sector0 k \<noteq> 0"

definition two_digits :: "nat \<Rightarrow> string" where
  "two_digits k = [''0123456789'' ! (k div 10), ''0123456789'' ! (k mod 10)]"

definition slot_partition :: "ata_disk \<Rightarrow> u8 list \<Rightarrow> nat \<Rightarrow> ata_partition" where
  "slot_partition disk sector0 k =
     \<lparr>part_disk = disk, part_system_id = slot_system_id sector0 k,
      part_start_lba = of_nat (slot_start_lba sector0 k),
      part_sector_count = of_nat (slot_sector_count sector0 k),
      part_devname = devname disk @ ''p'' @ two_digits k\<rparr>"

definition mbr_partitions :: "ata_disk \<Rightarrow> u8 list \<Rightarrow> ata_partition list" where
  "mbr_partitions disk sector0 =
     (if le_nat (take 2 (drop 510 sector0)) = 0xAA55
      then map (slot_partition disk sector0) (filter (slot_retained sector0) [0, 1, 2, 3])
      else [])"

text \<open>The machine with a partition, or a list of partitions, added: each is appended to
  the partition list and registered as a device under its name.\<close>

definition add_partition :: "ata_partition \<Rightarrow> machine \<Rightarrow> machine" where
  "add_partition part c =
     c\<lparr>partition_list := partition_list c @ [part],
       devices := devices c @ [(part_devname part, ATA_DEVICE_PARTITION part)]\<rparr>"

definition add_partitions :: "ata_partition list \<Rightarrow> machine \<Rightarrow> machine" where
  "add_partitions parts c =
     c\<lparr>partition_list := partition_list c @ parts,
       devices := devices c @ map (\<lambda>part. (part_devname part, ATA_DEVICE_PARTITION part)) parts\<rparr>"

section \<open>Properties\<close>

lemmas consts_defs = SECTOR_SIZE_def ATA_REG_DATA_def ATA_REG_ERR_def
  ATA_REG_SECTOR_COUNT_def ATA_REG_LBA_LOW_def ATA_REG_LBA_MID_def ATA_REG_LBA_HIGH_def
  ATA_REG_DISK_SELECT_def ATA_REG_COMMAND_STATUS_def ATA_STATUS_FLAG_ERROR_def
  ATA_STATUS_FLAG_DRQ_def ATA_STATUS_FLAG_DEVICE_FAILURE_def ATA_STATUS_FLAG_BUSY_def
  BUFFER_LENGTH_def BUFFER_LENGTH_IN_SECTORS_def INT_CONTINUE_def EINTR_def EIO_def
  EFAULT_def EINVAL_def

lemmas run_defs = bus_write_8_def bus_read_8_def bus_read_32_def ata_write_def ata_read_def
  write_control_def read_altstatus_def ata_delay400_def ata_wait_def ata_pio_read_def
  hdc_isr_def hdc_ist_def sched_wakeup_def store_irp_buf_def hdd_setup_io_def interrupt_def
  sched_sleep_def hdd_rw_def hdd_read_def Let_def word_le_nat_alt word_sless_alt

lemmas mock_defs = mock_controller_def mock_disk_def mock_partition_def legacy_channels_def
  idle_irp_def answering_def failing_disk_def unmappable_def unmapped_controller_def

subsection \<open>Bits and bytes\<close>

lemma bit_41: "bit (41 :: u8) n \<longleftrightarrow> n = 0 \<or> n = 3 \<or> n = 5"
proof (cases "n < 8")
  case True
  then have "n \<in> {0, 1, 2, 3, 4, 5, 6, 7}"
    by auto
  then show ?thesis
    by auto
next
  case False
  then have "\<not> bit (41 :: u8) n"
    by (auto dest: bit_imp_le_length)
  with False show ?thesis
    by auto
qed

lemma bit_33: "bit (33 :: u8) n \<longleftrightarrow> n = 0 \<or> n = 5"
proof (cases "n < 8")
  case True
  then have "n \<in> {0, 1, 2, 3, 4, 5, 6, 7}"
    by auto
  then show ?thesis
    by auto
next
  case False
  then have "\<not> bit (33 :: u8) n"
    by (auto dest: bit_imp_le_length)
  with False show ?thesis
    by auto
qed

lemma ucast_status_eq_0: "(ucast (x :: u8) :: u32) = 0 \<longleftrightarrow> x = 0"
proof -
  have "unat (ucast x :: u32) = unat x"
    by (simp add: unsigned_ucast_eq take_bit_nat_eq_self_iff)
       (rule less_trans [OF unsigned_less], simp)
  then show ?thesis
    by (metis unat_eq_0)
qed

lemma isr_mask:
  "(ucast (status :: u8) :: u32) AND (ATA_STATUS_FLAG_DRQ OR ATA_STATUS_FLAG_DEVICE_FAILURE
      OR ATA_STATUS_FLAG_ERROR) \<noteq> 0 \<longleftrightarrow> bit status 3 \<or> bit status 5 \<or> bit status 0"
proof -
  have "(ucast status :: u32) AND 0x29 = ucast (status AND 0x29)"
    by (simp add: unsigned_and_eq)
  then have "(ucast status :: u32) AND 0x29 = 0 \<longleftrightarrow> status AND 0x29 = 0"
    by (simp add: ucast_status_eq_0)
  also have "\<dots> \<longleftrightarrow> (\<forall>n. \<not> (bit status n \<and> bit (41 :: u8) n))"
    by (simp add: bit_eq_iff bit_and_iff)
  also have "\<dots> \<longleftrightarrow> \<not> (bit status 3 \<or> bit status 5 \<or> bit status 0)"
    unfolding bit_41 by blast
  finally show ?thesis
    by (simp add: ATA_STATUS_FLAG_DRQ_def ATA_STATUS_FLAG_DEVICE_FAILURE_def
        ATA_STATUS_FLAG_ERROR_def)
qed

lemma ist_mask:
  "(ucast (status :: u8) :: u32) AND (ATA_STATUS_FLAG_ERROR OR ATA_STATUS_FLAG_DEVICE_FAILURE)
      \<noteq> 0 \<longleftrightarrow> bit status 0 \<or> bit status 5"
proof -
  have "(ucast status :: u32) AND 0x21 = ucast (status AND 0x21)"
    by (simp add: unsigned_and_eq)
  then have "(ucast status :: u32) AND 0x21 = 0 \<longleftrightarrow> status AND 0x21 = 0"
    by (simp add: ucast_status_eq_0)
  also have "\<dots> \<longleftrightarrow> (\<forall>n. \<not> (bit status n \<and> bit (33 :: u8) n))"
    by (simp add: bit_eq_iff bit_and_iff)
  also have "\<dots> \<longleftrightarrow> \<not> (bit status 0 \<or> bit status 5)"
    unfolding bit_33 by blast
  finally show ?thesis
    by (simp add: ATA_STATUS_FLAG_DEVICE_FAILURE_def ATA_STATUS_FLAG_ERROR_def)
qed

lemma byte_extract:
  fixes w :: "'a::len word"
  shows "(ucast (drop_bit k w AND 0xff) :: u8) = of_nat (unat w div 2 ^ k mod 256)"
proof -
  have m: "(0xff :: 'a word) = mask 8"
    by (simp add: mask_eq_exp_minus_1)
  have "unat (drop_bit k w AND 0xff) = unat w div 2 ^ k mod 256"
  proof -
    have "unat (drop_bit k w AND 0xff) = take_bit 8 (drop_bit k (unat w))"
      unfolding m take_bit_eq_mask [symmetric]
      by (simp only: unsigned_take_bit_eq unat_drop_bit_eq)
    then show ?thesis
      by (simp add: take_bit_eq_mod drop_bit_eq_div)
  qed
  then have "of_nat (unat w div 2 ^ k mod 256) = (of_nat (unat (drop_bit k w AND 0xff)) :: u8)"
    by simp
  then show ?thesis
    by simp
qed

lemma byte_extract_low:
  fixes w :: "'a::len word"
  shows "(ucast (w AND 0xff) :: u8) = of_nat (unat w mod 256)"
  using byte_extract [of 0 w] by simp

lemma unat_drop_bit_div:
  fixes w :: "'a::len word"
  shows "unat (drop_bit k w) = unat w div 2 ^ k"
proof -
  have "unat (drop_bit k w) = drop_bit k (unat w)"
    by (rule unat_drop_bit_eq)
  also have "\<dots> = unat w div 2 ^ k"
    by (rule drop_bit_eq_div)
  finally show ?thesis .
qed

subsection \<open>The interrupt service routine\<close>

text \<open>
  C9. Whatever status byte the ISR reads from the alternate status register, it returns
  \<open>INT_CONTINUE\<close> if and only if one of the bits DRQ (0x08, bit 3), DEVICE_FAILURE (0x20,
  bit 5) or ERROR (0x01, bit 0) is set, and 0 otherwise; \<open>INT_CONTINUE\<close> is not 0, and the
  interrupt goes on to the IST exactly in the first case. The ISR does one port read and
  changes nothing else.
\<close>

theorem hdc_isr_dispatch:
  assumes "active_disk c = Some disk"
    and "status = dev_in8 c (trace c) (control_port (channels c (channel disk)))"
    and "c1 = c\<lparr>trace := trace c @ [In8 (control_port (channels c (channel disk))) status]\<rparr>"
  shows "hdc_isr c = Inr (if bit status 3 \<or> bit status 5 \<or> bit status 0
                          then INT_CONTINUE else 0, c1)
    \<and> interrupt c = (if bit status 3 \<or> bit status 5 \<or> bit status 0
                      then hdc_ist c1 else Inr ((), c1))
    \<and> INT_CONTINUE \<noteq> 0"
  using assms
  by (simp add: hdc_isr_def interrupt_def read_altstatus_def bus_read_8_def Let_def isr_mask
      INT_CONTINUE_def)

theorem hdc_isr_dispatch_witness:
  "active_disk ((mock_controller (answering 0x50) (answering 0) [])
                  \<lparr>active_disk := Some mock_disk\<rparr>) = Some mock_disk
   \<and> fst (projr (hdc_isr ((mock_controller (answering 0x50) (answering 0) [])
                  \<lparr>active_disk := Some mock_disk\<rparr>))) = 0
   \<and> fst (projr (hdc_isr ((mock_controller (answering 0x58) (answering 0) [])
                  \<lparr>active_disk := Some mock_disk\<rparr>))) = INT_CONTINUE"
  using hdc_isr_dispatch [of "(mock_controller (answering 0x50) (answering 0) [])
                  \<lparr>active_disk := Some mock_disk\<rparr>" mock_disk, OF _ refl refl]
    hdc_isr_dispatch [of "(mock_controller (answering 0x58) (answering 0) [])
                  \<lparr>active_disk := Some mock_disk\<rparr>" mock_disk, OF _ refl refl]
  by (simp add: mock_defs)

subsection \<open>Issuing a command\<close>

text \<open>
  C2. A read command for \<open>lba\<close> and \<open>sector_count\<close> makes exactly these writes to the
  command block of the disk's channel, in this order: DISK_SELECT; then SECTOR_COUNT with
  byte 1 of the count, LBA_LOW, LBA_MID and LBA_HIGH with bytes 3, 4 and 5 of the lba;
  then SECTOR_COUNT with byte 0 of the count, LBA_LOW, LBA_MID and LBA_HIGH with bytes 0, 1
  and 2 of the lba; then COMMAND_STATUS with 0x24.
\<close>

theorem hdd_setup_io_register_order:
  "\<exists>c1. hdd_setup_io disk IO_READ lba sector_count c = Inr ((), c1)
     \<and> trace c1 = trace c @
         [Out8 (base_port (channels c (channel disk)) + ATA_REG_DISK_SELECT)
            (ucast (0x40 OR push_bit 4 (slave disk))),
          Out8 (base_port (channels c (channel disk)) + ATA_REG_SECTOR_COUNT)
            (byte_of (unat sector_count) 1),
          Out8 (base_port (channels c (channel disk)) + ATA_REG_LBA_LOW) (byte_of (unat lba) 3),
          Out8 (base_port (channels c (channel disk)) + ATA_REG_LBA_MID) (byte_of (unat lba) 4),
          Out8 (base_port (channels c (channel disk)) + ATA_REG_LBA_HIGH) (byte_of (unat lba) 5),
          Out8 (base_port (channels c (channel disk)) + ATA_REG_SECTOR_COUNT)
            (byte_of (unat sector_count) 0),
          Out8 (base_port (channels c (channel disk)) + ATA_REG_LBA_LOW) (byte_of (unat lba) 0),
          Out8 (base_port (channels c (channel disk)) + ATA_REG_LBA_MID) (byte_of (unat lba) 1),
          Out8 (base_port (channels c (channel disk)) + ATA_REG_LBA_HIGH) (byte_of (unat lba) 2),
          Out8 (base_port (channels c (channel disk)) + ATA_REG_COMMAND_STATUS) 0x24]"
  by (simp add: hdd_setup_io_def ata_write_def bus_write_8_def Let_def byte_of_def
      byte_extract_low unat_drop_bit_div)

subsection \<open>What the calls leave alone\<close>

lemma only_io_refl [simp]: "only_io c c"
  by (simp add: only_io_def)

lemma only_io_update [simp]: "only_io c (c\<lparr>trace := t\<rparr>)"
  by (simp add: only_io_def)

lemma only_io_trans: "only_io a b \<Longrightarrow> only_io b c \<Longrightarrow> only_io a c"
  by (cases a; cases b; cases c) (simp add: only_io_def)

lemma only_io_fields:
  assumes "only_io c c1"
  shows "controller_devname c1 = controller_devname c" "channels c1 = channels c"
    "irp c1 = irp c" "active_disk c1 = active_disk c" "disk_list c1 = disk_list c"
    "partition_list c1 = partition_list c" "buffer c1 = buffer c" "dev_in8 c1 = dev_in8 c"
    "dev_in32 c1 = dev_in32 c" "pending c1 = pending c" "iocomp c1 = iocomp c"
    "kmem_map c1 = kmem_map c" "devices c1 = devices c" "issued c1 = issued c"
  using assms by (cases c; cases c1; simp add: only_io_def)+

lemma undisturbed_refl [simp]: "undisturbed c c"
  by (simp add: undisturbed_def)

lemma undisturbed_trans: "undisturbed a b \<Longrightarrow> undisturbed b c \<Longrightarrow> undisturbed a c"
  by (cases a; cases b; cases c) (simp add: undisturbed_def)

lemma only_io_undisturbed: "only_io c c1 \<Longrightarrow> undisturbed c c1"
  by (cases c; cases c1) (simp add: only_io_def undisturbed_def)

lemma undisturbed_fields:
  assumes "undisturbed c c1"
  shows "controller_devname c1 = controller_devname c" "channels c1 = channels c"
    "disk_list c1 = disk_list c"
    "partition_list c1 = partition_list c" "length (buffer c1) = length (buffer c)"
    "dev_in8 c1 = dev_in8 c" "dev_in32 c1 = dev_in32 c"
    "kmem_map c1 = kmem_map c" "devices c1 = devices c" "issued c1 = issued c"
  using assms by (cases c; cases c1; simp add: undisturbed_def)+


lemma final_simps [simp]: "final (Inl (f, c)) = c" "final (Inr (v, c)) = c"
  by (simp_all add: final_def)

lemma bus_read_8_io: "only_io c (snd (bus_read_8 port c))"
  by (simp add: bus_read_8_def Let_def)

lemma bus_read_32_io: "only_io c (snd (bus_read_32 port c))"
  by (simp add: bus_read_32_def Let_def)

lemma ata_write_io: "only_io c (ata_write channelnum reg val c)"
  by (simp add: ata_write_def bus_write_8_def)

lemma ata_read_io: "only_io c (snd (ata_read channelnum reg c))"
  by (simp add: ata_read_def bus_read_8_io)

lemma read_altstatus_io: "only_io c (snd (read_altstatus channelnum c))"
  by (simp add: read_altstatus_def bus_read_8_io)

lemma ata_delay400_io: "only_io c (ata_delay400 channelnum c)"
  unfolding ata_delay400_def
  by (blast intro: only_io_trans read_altstatus_io)

lemma ata_wait_loop_io: "only_io c (ata_wait_loop channelnum i c)"
proof (induction channelnum i c rule: ata_wait_loop.induct)
  case (1 channelnum i c)
  show ?case
  proof (cases "i < 0x80000000")
    case True
    obtain status c1 where r: "read_altstatus channelnum c = (status, c1)"
      by (cases "read_altstatus channelnum c")
    then have io: "only_io c c1"
      using read_altstatus_io [of c channelnum] by simp
    show ?thesis
    proof (cases "ucast status AND ATA_STATUS_FLAG_BUSY = 0")
      case True
      with \<open>i < 0x80000000\<close> r io show ?thesis
        by (subst ata_wait_loop.simps) simp
    next
      case False
      with 1 [OF \<open>i < 0x80000000\<close> r [symmetric]] \<open>i < 0x80000000\<close> r io show ?thesis
        by (subst ata_wait_loop.simps) (auto intro: only_io_trans)
    qed
  next
    case False
    then show ?thesis
      by (subst ata_wait_loop.simps) simp
  qed
qed

lemma ata_wait_io: "only_io c (ata_wait channelnum c)"
  unfolding ata_wait_def
  by (blast intro: only_io_trans ata_delay400_io ata_wait_loop_io)

lemma ata_pio_read_loop_io: "only_io c (final (ata_pio_read_loop channelnum count stored c))"
proof (induction channelnum count stored c rule: ata_pio_read_loop.induct)
  case (1 channelnum count stored c)
  show ?case
  proof (cases "count = 0 \<or> count < 4")
    case True
    then show ?thesis
      by (subst ata_pio_read_loop.simps) auto
  next
    case False
    obtain v c1 where r: "bus_read_32 (base_port (channels c channelnum) + ATA_REG_DATA) c = (v, c1)"
      by (cases "bus_read_32 (base_port (channels c channelnum) + ATA_REG_DATA) c")
    then have io: "only_io c c1"
      using bus_read_32_io [of c] by (metis snd_conv)
    from False have "count \<noteq> 0" "\<not> count < 4"
      by auto
    from 1 [OF this r [symmetric]] this r io show ?thesis
      by (subst ata_pio_read_loop.simps) (auto intro: only_io_trans)
  qed
qed

lemma ata_pio_read_io: "only_io c (final (ata_pio_read channelnum count c))"
  by (simp add: ata_pio_read_def ata_pio_read_loop_io)

lemma ata_pio_read_loop_length:
  "ata_pio_read_loop channelnum count stored c = Inr (bytes, c1)
   \<Longrightarrow> length bytes = length stored + unat count"
proof (induction channelnum count stored c rule: ata_pio_read_loop.induct)
  case (1 channelnum count stored c)
  show ?case
  proof (cases "count = 0")
    case True
    with "1.prems" show ?thesis
      by (subst (asm) ata_pio_read_loop.simps) simp
  next
    case False
    with "1.prems" have n4: "\<not> count < 4"
      by (subst (asm) ata_pio_read_loop.simps) (auto split: if_splits)
    obtain v c0 where r: "bus_read_32 (base_port (channels c channelnum) + ATA_REG_DATA) c = (v, c0)"
      by (cases "bus_read_32 (base_port (channels c channelnum) + ATA_REG_DATA) c")
    from n4 have "4 \<le> count"
      by simp
    then have u: "unat (count - 4) = unat count - 4" "4 \<le> unat count"
      by (simp_all add: unat_sub word_le_nat_alt)
    from "1.prems" False n4 r
    have "ata_pio_read_loop channelnum (count - 4)
            (stored @ [ucast (v AND 0xff), ucast (drop_bit 8 v AND 0xff),
                       ucast (drop_bit 16 v AND 0xff), ucast (drop_bit 24 v AND 0xff)]) c0
          = Inr (bytes, c1)"
      by (subst (asm) ata_pio_read_loop.simps) simp
    from "1.IH" [OF False n4 r [symmetric] this] u show ?thesis
      by simp
  qed
qed

lemma ata_pio_read_length:
  "ata_pio_read channelnum count c = Inr (bytes, c1) \<Longrightarrow> length bytes = unat count"
  using ata_pio_read_loop_length [of channelnum count "[]" c bytes c1]
  by (simp add: ata_pio_read_def split: if_splits)


lemma hdc_isr_io: "only_io c (final (hdc_isr c))"
proof (cases "active_disk c")
  case None
  then show ?thesis
    by (simp add: hdc_isr_def)
next
  case (Some disk)
  obtain status c1 where r: "read_altstatus (channel disk) c = (status, c1)"
    by (cases "read_altstatus (channel disk) c")
  then have "only_io c c1"
    using read_altstatus_io [of c "channel disk"] by simp
  with Some r show ?thesis
    by (simp add: hdc_isr_def)
qed

lemma undisturbed_update [simp]:
  "undisturbed c (c\<lparr>trace := t\<rparr>)" "undisturbed c (c\<lparr>irp := i\<rparr>)"
  "undisturbed c (c\<lparr>active_disk := a\<rparr>)" "undisturbed c (c\<lparr>pending := p\<rparr>)"
  "undisturbed c (c\<lparr>iocomp := b\<rparr>)"
  by (simp_all add: undisturbed_def)

lemma store_irp_buf_undisturbed: "undisturbed c (final (store_irp_buf bytes c))"
  by (cases "irp_buf (irp c)") (simp_all add: store_irp_buf_def undisturbed_def)

lemma hdc_ist_undisturbed: "undisturbed c (final (hdc_ist c))"
proof (cases "active_disk c")
  case None
  then show ?thesis
    by (simp add: hdc_ist_def)
next
  case (Some disk)
  obtain status c1 where r: "ata_read (channel disk) ATA_REG_COMMAND_STATUS c = (status, c1)"
    by (cases "ata_read (channel disk) ATA_REG_COMMAND_STATUS c")
  then have u1: "undisturbed c c1"
    using ata_read_io [of c "channel disk" ATA_REG_COMMAND_STATUS]
    by (simp add: only_io_undisturbed)
  define c2 where "c2 = c1\<lparr>active_disk := None\<rparr>"
  have u2: "undisturbed c c2"
    using u1 unfolding c2_def by (blast intro: undisturbed_trans undisturbed_update)
  show ?thesis
  proof (cases "ucast status AND (ATA_STATUS_FLAG_ERROR OR ATA_STATUS_FLAG_DEVICE_FAILURE) \<noteq> 0")
    case True
    obtain err c3 where e: "ata_read (channel disk) ATA_REG_ERR c2 = (err, c3)"
      by (cases "ata_read (channel disk) ATA_REG_ERR c2")
    then have "undisturbed c2 c3"
      using ata_read_io [of c2 "channel disk" ATA_REG_ERR] by (simp add: only_io_undisturbed)
    then have "undisturbed c (sched_wakeup (c3\<lparr>irp := (irp c3)\<lparr>irp_error :=
                 0x80000000 OR push_bit 16 (ucast status) OR ucast err\<rparr>\<rparr>))"
      unfolding sched_wakeup_def
      by (blast intro: undisturbed_trans undisturbed_update u2)
    with Some r True e show ?thesis
      by (simp add: hdc_ist_def c2_def Let_def)
  next
    case False
    define c3 where "c3 = c2\<lparr>irp := (irp c2)\<lparr>irp_error := 0\<rparr>\<rparr>"
    have u3: "undisturbed c c3"
      unfolding c3_def by (blast intro: undisturbed_trans undisturbed_update u2)
    have unf: "hdc_ist c =
        (case irp_cmd (irp c3) of
           IO_READ \<Rightarrow>
             (case ata_pio_read (channel disk) (irp_blksz (irp c3) * SECTOR_SIZE) c3 of
                Inl f \<Rightarrow> Inl f
              | Inr (bytes, c4) \<Rightarrow>
                  (case store_irp_buf bytes c4 of
                     Inl f \<Rightarrow> Inl f
                   | Inr (u, c5) \<Rightarrow> Inr ((), sched_wakeup c5)))
         | IO_WRITE \<Rightarrow> Inl (Panic, c3)
         | IO_NONE \<Rightarrow> Inl (Panic, c3))"
      unfolding c3_def c2_def using Some r False
      by (simp add: hdc_ist_def Let_def cong: io_cmd.case_cong)
    show ?thesis
    proof (cases "irp_cmd (irp c3)")
      case IO_READ
      have p: "undisturbed c3 (final (ata_pio_read (channel disk) (irp_blksz (irp c3) * SECTOR_SIZE) c3))"
        by (rule only_io_undisturbed [OF ata_pio_read_io])
      show ?thesis
      proof (cases "ata_pio_read (channel disk) (irp_blksz (irp c3) * SECTOR_SIZE) c3")
        case (Inl f)
        with p IO_READ unf u3 show ?thesis
          by (cases f) (auto intro: undisturbed_trans)
      next
        case (Inr bc)
        obtain bytes c4 where bc: "bc = (bytes, c4)"
          by (cases bc)
        with p Inr have u4: "undisturbed c c4"
          using u3 by (auto intro: undisturbed_trans)
        have s: "undisturbed c4 (final (store_irp_buf bytes c4))"
          by (rule store_irp_buf_undisturbed)
        show ?thesis
        proof (cases "store_irp_buf bytes c4")
          case (Inl f)
          with s IO_READ unf Inr bc u4 show ?thesis
            by (cases f) (auto intro: undisturbed_trans)
        next
          case (Inr uc)
          obtain u c5 where uc: "uc = (u, c5)"
            by (cases uc)
          with s Inr have "undisturbed c (sched_wakeup c5)"
            unfolding sched_wakeup_def
            using u4 by (auto intro: undisturbed_trans undisturbed_update)
          with IO_READ unf \<open>ata_pio_read (channel disk) (irp_blksz (irp c3) * SECTOR_SIZE) c3 = Inr bc\<close>
            bc Inr uc show ?thesis
            by simp
        qed
      qed
    qed (use unf u3 in simp_all)
  qed
qed

lemma interrupt_undisturbed: "undisturbed c (final (interrupt c))"
proof (cases "hdc_isr c")
  case (Inl f)
  with hdc_isr_io [of c] show ?thesis
    by (cases f) (simp add: interrupt_def only_io_undisturbed)
next
  case (Inr rc)
  obtain r c1 where rc: "rc = (r, c1)"
    by (cases rc)
  with Inr hdc_isr_io [of c] have "undisturbed c c1"
    by (simp add: only_io_undisturbed)
  with Inr rc hdc_ist_undisturbed [of c1] show ?thesis
    by (auto simp: interrupt_def intro: undisturbed_trans)
qed

lemma sched_sleep_on_undisturbed: "undisturbed c (final (sched_sleep_on ws c))"
proof (induction ws arbitrary: c)
  case Nil
  show ?case
    by simp
next
  case (Cons w ws)
  show ?case
  proof (cases w)
    case Signal
    then show ?thesis
      by simp
  next
    case Irq
    have u: "undisturbed c (final (interrupt (c\<lparr>pending := ws\<rparr>)))"
      by (blast intro: undisturbed_trans undisturbed_update interrupt_undisturbed)
    show ?thesis
    proof (cases "interrupt (c\<lparr>pending := ws\<rparr>)")
      case (Inl f)
      with u Irq show ?thesis
        by (cases f) simp
    next
      case (Inr uc)
      obtain v c1 where "uc = (v, c1)"
        by (cases uc)
      with u Irq Inr Cons.IH [of c1] show ?thesis
        by (auto intro: undisturbed_trans)
    qed
  qed
qed

lemma sched_sleep_undisturbed: "undisturbed c (final (sched_sleep c))"
  unfolding sched_sleep_def
  by (blast intro: undisturbed_trans undisturbed_update sched_sleep_on_undisturbed)

subsection \<open>Completion with an error\<close>

lemma hdc_ist_error:
  assumes "active_disk c = Some disk"
    and "status = dev_in8 c (trace c) (base_port (channels c (channel disk)) + ATA_REG_COMMAND_STATUS)"
    and "bit status 0 \<or> bit status 5"
    and "err = dev_in8 c (trace c @ [In8 (base_port (channels c (channel disk)) + ATA_REG_COMMAND_STATUS) status])
                 (base_port (channels c (channel disk)) + ATA_REG_ERR)"
  shows "hdc_ist c = Inr ((), c\<lparr>trace := trace c @
             [In8 (base_port (channels c (channel disk)) + ATA_REG_COMMAND_STATUS) status,
              In8 (base_port (channels c (channel disk)) + ATA_REG_ERR) err],
           active_disk := None,
           irp := (irp c)\<lparr>irp_error := 0x80000000 OR push_bit 16 (ucast status) OR ucast err\<rparr>,
           iocomp := True\<rparr>)"
  using assms
  by (simp add: hdc_ist_def ata_read_def bus_read_8_def Let_def ist_mask sched_wakeup_def)

lemma error_word_nonzero: "(0x80000000 OR x :: u32) \<noteq> 0"
proof
  assume "0x80000000 OR x = 0"
  then have "bit (0x80000000 OR x) 31 = bit (0 :: u32) 31"
    by simp
  then show False
    by (simp add: bit_or_iff)
qed

lemma issue_read_fields:
  "active_disk (issue_read disk n blkno c) = Some disk"
  "pending (issue_read disk n blkno c) = pending c"
  "dev_in8 (issue_read disk n blkno c) = dev_in8 c"
  "dev_in32 (issue_read disk n blkno c) = dev_in32 c"
  "channels (issue_read disk n blkno c) = channels c"
  "buffer (issue_read disk n blkno c) = buffer c"
  "kmem_map (issue_read disk n blkno c) = kmem_map c"
  "issued (issue_read disk n blkno c) = issued c @ [(scast blkno, n)]"
  "irp (issue_read disk n blkno c) =
     (irp c)\<lparr>irp_cmd := IO_READ, irp_ntries := 0, irp_error := 0, irp_blkno := blkno,
              irp_blksz := n, irp_buf := Controller_buffer\<rparr>"
  by (simp_all add: issue_read_def final_def hdd_setup_io_def ata_write_def bus_write_8_def Let_def)

lemma hdd_rw_read:
  "hdd_rw disk IO_READ Controller_buffer n blkno c =
     (case sched_sleep (issue_read disk n blkno c) of
        Inl f \<Rightarrow> Inl f
      | Inr (r, c3) \<Rightarrow> if r = SLP_INTR then Inr (EINTR, c3) else Inr (irp_error (irp c3), c3))"
  by (simp add: hdd_rw_def issue_read_def final_def hdd_setup_io_def Let_def)

lemma sleep_error:
  assumes "active_disk c = Some disk"
    and "pending c = Irq # ws"
    and "alt = dev_in8 c (trace c) (control_port (channels c (channel disk)))"
    and "bit alt 3 \<or> bit alt 5 \<or> bit alt 0"
    and "c_isr = c\<lparr>iocomp := False, pending := ws,
                   trace := trace c @ [In8 (control_port (channels c (channel disk))) alt]\<rparr>"
    and "status = dev_in8 c (trace c_isr)
                    (base_port (channels c (channel disk)) + ATA_REG_COMMAND_STATUS)"
    and "bit status 0 \<or> bit status 5"
    and "err = dev_in8 c (trace c_isr @ [In8 (base_port (channels c (channel disk))
                                                + ATA_REG_COMMAND_STATUS) status])
                 (base_port (channels c (channel disk)) + ATA_REG_ERR)"
    and "c1 = c_isr\<lparr>trace := trace c_isr @
               [In8 (base_port (channels c (channel disk)) + ATA_REG_COMMAND_STATUS) status,
                In8 (base_port (channels c (channel disk)) + ATA_REG_ERR) err],
             active_disk := None,
             irp := (irp c)\<lparr>irp_error := 0x80000000 OR push_bit 16 (ucast status) OR ucast err\<rparr>,
             iocomp := True\<rparr>"
  shows "hdc_ist c_isr = Inr ((), c1)" and "sched_sleep c = Inr (SLP_SUCCESS, c1)"
proof -
  show ist: "hdc_ist c_isr = Inr ((), c1)"
    using assms by (subst hdc_ist_error [where disk = disk and status = status and err = err]) simp_all
  have "hdc_isr (c\<lparr>iocomp := False, pending := ws\<rparr>) = Inr (INT_CONTINUE, c_isr)"
    using assms(1,3,4,5)
    by (simp add: hdc_isr_def read_altstatus_def bus_read_8_def Let_def isr_mask)
  then have "interrupt (c\<lparr>iocomp := False, pending := ws\<rparr>) = Inr ((), c1)"
    using ist by (simp add: interrupt_def)
  moreover have "iocomp c1"
    using assms(9) by simp
  ultimately show "sched_sleep c = Inr (SLP_SUCCESS, c1)"
    using assms(2) by (simp add: sched_sleep_def)
qed


text \<open>
  C3. A read is in its loop with sectors left; it sends the command for the next chunk and
  sleeps, and the disk's interrupt arrives. If the alternate status the ISR reads makes it
  dispatch, and the status register the IST then reads has ERROR (bit 0) or DEVICE_FAILURE
  (bit 5) set, then the IST records \<open>0x80000000 | (status << 16) | ERR\<close> in the
  request, reads nothing but the status and ERR registers (no data transfer, the bounce
  buffer is untouched), clears \<open>active_disk\<close> and signals the completion event; \<open>hdd_rw\<close>
  returns that error word, which is not 0, and the read returns EIO with \<open>*nbyte\<close> set to
  what was transferred before.
\<close>

theorem hdc_ist_error_fails_read:
  assumes "0 < sector_count"
    and "n = (if BUFFER_LENGTH_IN_SECTORS < sector_count then BUFFER_LENGTH_IN_SECTORS
              else sector_count)"
    and "c_issued = issue_read disk n blkno c"
    and "pending c = Irq # ws"
    and "alt = dev_in8 c (trace c_issued) (control_port (channels c (channel disk)))"
    and "bit alt 3 \<or> bit alt 5 \<or> bit alt 0"
    and "c_isr = c_issued\<lparr>iocomp := False, pending := ws,
                   trace := trace c_issued @ [In8 (control_port (channels c (channel disk))) alt]\<rparr>"
    and "status = dev_in8 c (trace c_isr)
                    (base_port (channels c (channel disk)) + ATA_REG_COMMAND_STATUS)"
    and "bit status 0 \<or> bit status 5"
    and "err = dev_in8 c (trace c_isr @ [In8 (base_port (channels c (channel disk))
                                                + ATA_REG_COMMAND_STATUS) status])
                 (base_port (channels c (channel disk)) + ATA_REG_ERR)"
    and "c1 = c_isr\<lparr>trace := trace c_isr @
               [In8 (base_port (channels c (channel disk)) + ATA_REG_COMMAND_STATUS) status,
                In8 (base_port (channels c (channel disk)) + ATA_REG_ERR) err],
             active_disk := None,
             irp := (irp c_isr)\<lparr>irp_error := 0x80000000 OR push_bit 16 (ucast status) OR ucast err\<rparr>,
             iocomp := True\<rparr>"
  shows "hdc_ist c_isr = Inr ((), c1)
    \<and> irp_error (irp c1) = 0x80000000 OR push_bit 16 (ucast status) OR ucast err
    \<and> irp_error (irp c1) \<noteq> 0
    \<and> buffer c1 = buffer c
    \<and> iocomp c1
    \<and> hdd_rw disk IO_READ Controller_buffer n blkno c = Inr (irp_error (irp c1), c1)
    \<and> hdd_read_loop disk sector_count blkno transferred_total kbuf c
        = Inr ((EIO, transferred_total, kbuf), c1)"
proof -
  have f: "active_disk c_issued = Some disk" "pending c_issued = Irq # ws"
    "dev_in8 c_issued = dev_in8 c" "channels c_issued = channels c"
    "buffer c_issued = buffer c"
    using assms(4) by (simp_all add: assms(3) issue_read_fields)
  have ist: "hdc_ist c_isr = Inr ((), c1)" and sl: "sched_sleep c_issued = Inr (SLP_SUCCESS, c1)"
  proof -
    have 1: "alt = dev_in8 c_issued (trace c_issued)
                     (control_port (channels c_issued (channel disk)))"
      using assms(5) by (simp add: f)
    have 2: "c_isr = c_issued\<lparr>iocomp := False, pending := ws,
               trace := trace c_issued
                 @ [In8 (control_port (channels c_issued (channel disk))) alt]\<rparr>"
      using assms(7) by (simp add: f)
    have 3: "status = dev_in8 c_issued (trace c_isr)
               (base_port (channels c_issued (channel disk)) + ATA_REG_COMMAND_STATUS)"
      using assms(8) by (simp add: f)
    have 4: "err = dev_in8 c_issued
               (trace c_isr @ [In8 (base_port (channels c_issued (channel disk))
                                     + ATA_REG_COMMAND_STATUS) status])
               (base_port (channels c_issued (channel disk)) + ATA_REG_ERR)"
      using assms(10) by (simp add: f)
    have 5: "c1 = c_isr\<lparr>trace := trace c_isr @
               [In8 (base_port (channels c_issued (channel disk)) + ATA_REG_COMMAND_STATUS)
                  status,
                In8 (base_port (channels c_issued (channel disk)) + ATA_REG_ERR) err],
             active_disk := None,
             irp := (irp c_issued)\<lparr>irp_error :=
                      0x80000000 OR push_bit 16 (ucast status) OR ucast err\<rparr>,
             iocomp := True\<rparr>"
      using assms(11) by (simp add: f assms(7))
    show "hdc_ist c_isr = Inr ((), c1)" and "sched_sleep c_issued = Inr (SLP_SUCCESS, c1)"
      by (rule sleep_error [OF f(1) f(2) 1 assms(6) 2 3 assms(9) 4 5])+
  qed
  have e: "irp_error (irp c1) = 0x80000000 OR push_bit 16 (ucast status) OR ucast err"
    using assms(11) by simp
  then have nz: "irp_error (irp c1) \<noteq> 0"
    by (simp add: error_word_nonzero or.assoc)
  have b: "buffer c1 = buffer c" and w: "iocomp c1"
    using assms(7,11) f by simp_all
  have rw: "hdd_rw disk IO_READ Controller_buffer n blkno c = Inr (irp_error (irp c1), c1)"
    using sl unfolding assms(3) by (simp add: hdd_rw_read)
  have "hdd_read_loop disk sector_count blkno transferred_total kbuf c
        = Inr ((EIO, transferred_total, kbuf), c1)"
    using assms(1) rw nz unfolding assms(2)
    by (subst hdd_read_loop.simps) (simp add: Let_def)
  with ist e nz b w rw show ?thesis
    by simp
qed

theorem hdc_ist_error_fails_read_witness:
  "fst (projr (hdd_read (ATA_DEVICE_WHOLEDISK mock_disk) 0 512 0
      (mock_controller failing_disk (answering 0) [Irq])))
     = (EIO, 0, [])
   \<and> irp_error (irp (final (hdd_read (ATA_DEVICE_WHOLEDISK mock_disk) 0 512 0
      (mock_controller failing_disk (answering 0) [Irq]))))
     = 0x80410004"
  using hdc_ist_error_fails_read [of 1 1 _ mock_disk 0
      "mock_controller failing_disk (answering 0) [Irq]"
      "[]" _ _ _ _ _ 0 "[]", OF _ _ refl _ refl _ refl refl _ refl refl]
  by (simp add: hdd_read_def issue_read_fields consts_defs mock_defs final_def
      word_le_nat_alt word_sless_alt)

subsection \<open>Successful completion\<close>

lemma ata_read_irp: "ata_read channelnum reg c = (v, c1) \<Longrightarrow> irp c1 = irp c"
  using only_io_fields(3) [OF ata_read_io [of c channelnum reg]] by simp

lemma hdc_ist_returns:
  assumes "hdc_ist c = Inr ((), c1)"
  shows "iocomp c1 \<and> (irp_error (irp c1) = 0 \<longrightarrow> irp_buf (irp c) = Controller_buffer
         \<longrightarrow> unat (irp_blksz (irp c) * SECTOR_SIZE) \<le> length (buffer c1))"
proof -
  from assms obtain disk where d: "active_disk c = Some disk"
    by (cases "active_disk c") (simp_all add: hdc_ist_def)
  obtain status c0 where r: "ata_read (channel disk) ATA_REG_COMMAND_STATUS c = (status, c0)"
    by (cases "ata_read (channel disk) ATA_REG_COMMAND_STATUS c")
  have i0: "irp c0 = irp c"
    by (rule ata_read_irp [OF r])
  show ?thesis
  proof (cases "ucast status AND (ATA_STATUS_FLAG_ERROR OR ATA_STATUS_FLAG_DEVICE_FAILURE) \<noteq> 0")
    case True
    obtain err c3 where e: "ata_read (channel disk) ATA_REG_ERR (c0\<lparr>active_disk := None\<rparr>) = (err, c3)"
      by (cases "ata_read (channel disk) ATA_REG_ERR (c0\<lparr>active_disk := None\<rparr>)")
    have "c1 = sched_wakeup (c3\<lparr>irp := (irp c3)\<lparr>irp_error :=
                 0x80000000 OR push_bit 16 (ucast status) OR ucast err\<rparr>\<rparr>)"
      using assms d r True e by (simp add: hdc_ist_def Let_def)
    then show ?thesis
      by (simp add: sched_wakeup_def error_word_nonzero or.assoc)
  next
    case False
    define c3 where "c3 = c0\<lparr>active_disk := None, irp := (irp c0)\<lparr>irp_error := 0\<rparr>\<rparr>"
    have unf: "hdc_ist c =
        (case irp_cmd (irp c3) of
           IO_READ \<Rightarrow>
             (case ata_pio_read (channel disk) (irp_blksz (irp c3) * SECTOR_SIZE) c3 of
                Inl f \<Rightarrow> Inl f
              | Inr (bytes, c4) \<Rightarrow>
                  (case store_irp_buf bytes c4 of
                     Inl f \<Rightarrow> Inl f
                   | Inr (u, c5) \<Rightarrow> Inr ((), sched_wakeup c5)))
         | IO_WRITE \<Rightarrow> Inl (Panic, c3)
         | IO_NONE \<Rightarrow> Inl (Panic, c3))"
      unfolding c3_def using d r False
      by (simp add: hdc_ist_def Let_def cong: io_cmd.case_cong)
    from assms unf have rd: "irp_cmd (irp c3) = IO_READ"
      by (cases "irp_cmd (irp c3)") simp_all
    from assms unf rd obtain bytes c4 where
      p: "ata_pio_read (channel disk) (irp_blksz (irp c3) * SECTOR_SIZE) c3 = Inr (bytes, c4)"
      by (cases "ata_pio_read (channel disk) (irp_blksz (irp c3) * SECTOR_SIZE) c3") auto
    from assms unf rd p obtain c5 where
      s: "store_irp_buf bytes c4 = Inr ((), c5)" and w: "c1 = sched_wakeup c5"
      by (cases "store_irp_buf bytes c4") auto
    have len: "length bytes = unat (irp_blksz (irp c) * SECTOR_SIZE)"
      using ata_pio_read_length [OF p] by (simp add: c3_def i0)
    have "irp c4 = irp c3"
      using only_io_fields(3) [OF ata_pio_read_io [of c3 "channel disk"
            "irp_blksz (irp c3) * SECTOR_SIZE"]] p
      by simp
    then have "irp_buf (irp c4) = irp_buf (irp c)"
      by (simp add: c3_def i0)
    with s have "irp_buf (irp c) = Controller_buffer \<longrightarrow> length bytes \<le> length (buffer c5)"
      by (auto simp: store_irp_buf_def split: if_splits)
    with len w show ?thesis
      by (simp add: sched_wakeup_def)
  qed
qed

lemma sched_sleep_on_success:
  assumes "sched_sleep_on ws c = Inr (SLP_SUCCESS, c1)"
    and "\<not> iocomp c" and "irp_buf (irp c) = Controller_buffer" and "irp_error (irp c1) = 0"
  shows "unat (irp_blksz (irp c) * SECTOR_SIZE) \<le> length (buffer c1)"
  using assms
proof (induction ws arbitrary: c)
  case Nil
  then show ?case
    by simp
next
  case (Cons w ws)
  show ?case
  proof (cases w)
    case Signal
    with Cons.prems show ?thesis
      by simp
  next
    case Irq
    define c0 where "c0 = c\<lparr>pending := ws\<rparr>"
    from Cons.prems(1) Irq obtain c2 where i: "interrupt c0 = Inr ((), c2)"
      and rest: "(if iocomp c2 then Inr (SLP_SUCCESS, c2) else sched_sleep_on ws c2)
                 = Inr (SLP_SUCCESS, c1)"
      unfolding c0_def by (auto split: sum.splits)
    from i obtain r ci where isr: "hdc_isr c0 = Inr (r, ci)"
      and ist: "(if r = INT_CONTINUE then hdc_ist ci else Inr ((), ci)) = Inr ((), c2)"
      by (auto simp: interrupt_def split: sum.splits)
    have io: "only_io c0 ci"
      using hdc_isr_io [of c0] isr by simp
    have irp_ci: "irp ci = irp c" and ioc_ci: "iocomp ci = iocomp c"
      using only_io_fields(3,11) [OF io] by (simp_all add: c0_def)
    show ?thesis
    proof (cases "r = INT_CONTINUE")
      case True
      with ist have h: "hdc_ist ci = Inr ((), c2)"
        by simp
      from hdc_ist_returns [OF h] rest have "c2 = c1"
        by simp
      with hdc_ist_returns [OF h] Cons.prems(3,4) irp_ci show ?thesis
        by simp
    next
      case False
      with ist have "c2 = ci"
        by simp
      with rest ioc_ci Cons.prems(2) have "sched_sleep_on ws ci = Inr (SLP_SUCCESS, c1)"
        by simp
      from Cons.IH [OF this] ioc_ci irp_ci Cons.prems(2,3,4) show ?thesis
        by simp
    qed
  qed
qed



lemma hdd_rw_final:
  "final (hdd_rw disk IO_READ Controller_buffer n blkno c)
   = final (sched_sleep (issue_read disk n blkno c))"
proof (cases "sched_sleep (issue_read disk n blkno c)")
  case (Inl f)
  then show ?thesis
    by (cases f) (simp add: hdd_rw_read)
next
  case (Inr rc)
  then show ?thesis
    by (cases rc) (simp add: hdd_rw_read)
qed

lemma hdd_rw_undisturbed:
  "undisturbed (issue_read disk n blkno c) (final (hdd_rw disk IO_READ Controller_buffer n blkno c))"
  unfolding hdd_rw_final by (rule sched_sleep_undisturbed)

lemma hdd_rw_issued:
  "issued (final (hdd_rw disk IO_READ Controller_buffer n blkno c)) = issued c @ [(scast blkno, n)]"
  using undisturbed_fields(10) [OF hdd_rw_undisturbed [of disk n blkno c]]
  by (simp add: issue_read_fields)

lemma hdd_rw_success_buffer:
  assumes "hdd_rw disk IO_READ Controller_buffer n blkno c = Inr (0, c1)"
  shows "unat (n * SECTOR_SIZE) \<le> length (buffer c1)"
proof -
  from assms obtain r where s: "sched_sleep (issue_read disk n blkno c) = Inr (r, c1)"
    and v: "(if r = SLP_INTR then EINTR else irp_error (irp c1)) = 0"
    by (cases "sched_sleep (issue_read disk n blkno c)")
       (auto simp: hdd_rw_read split: if_splits)
  from v have "r \<noteq> SLP_INTR" and z: "irp_error (irp c1) = 0"
    by (auto simp: EINTR_def split: if_splits)
  then have "r = SLP_SUCCESS"
    by (cases r) simp_all
  with s have "sched_sleep_on (pending (issue_read disk n blkno c))
                 ((issue_read disk n blkno c)\<lparr>iocomp := False\<rparr>) = Inr (SLP_SUCCESS, c1)"
    by (simp add: sched_sleep_def)
  from sched_sleep_on_success [OF this _ _ z] show ?thesis
    by (simp add: issue_read_fields)
qed

subsection \<open>The loop of \<open>hdd_read\<close>\<close>

lemma chunk_sizes_0 [simp]: "chunk_sizes 0 = []"
  by (simp add: chunk_sizes_def)

lemma chunk_sizes_rec:
  assumes "0 < N"
  shows "chunk_sizes N = min N 128 # chunk_sizes (N - min N 128)"
proof (cases "N \<le> 128")
  case True
  with assms have "(N + 127) div 128 = 1"
    by simp
  with True show ?thesis
    by (simp add: chunk_sizes_def)
next
  case False
  then have d: "(N + 127) div 128 = Suc ((N - 128 + 127) div 128)"
    by simp
  have "map (\<lambda>k. min (N - 128 * k) 128) [0..<Suc ((N - 128 + 127) div 128)]
        = min N 128 # map (\<lambda>k. min (N - 128 - 128 * k) 128) [0..<(N - 128 + 127) div 128]"
    by (simp add: upt_conv_Cons map_Suc_upt [symmetric] del: upt_Suc)
  with False d show ?thesis
    by (simp add: chunk_sizes_def)
qed

lemma sum_list_chunk_sizes: "sum_list (chunk_sizes N) = N"
proof (induction N rule: less_induct)
  case (less N)
  show ?case
  proof (cases "N = 0")
    case True
    then show ?thesis
      by simp
  next
    case False
    then have "N - min N 128 < N"
      by simp
    from less [OF this] False show ?thesis
      by (simp add: chunk_sizes_rec)
  qed
qed

lemma BUFFER_LENGTH_IN_SECTORS_128: "BUFFER_LENGTH_IN_SECTORS = 128"
  by (simp add: BUFFER_LENGTH_IN_SECTORS_def BUFFER_LENGTH_def SECTOR_SIZE_def)

lemma transfer_size_unat: "unat (transfer_size sc) = min (unat sc) 128"
  by (simp add: transfer_size_def BUFFER_LENGTH_IN_SECTORS_128 word_less_nat_alt min_def)

lemma transfer_size_le: "transfer_size sc \<le> sc"
  by (simp add: transfer_size_def less_imp_le)

lemma transfer_size_rest: "unat (sc - transfer_size sc) = unat sc - min (unat sc) 128"
  using transfer_size_le [of sc] by (simp add: unat_sub transfer_size_unat)

lemma transfer_size_bytes: "unat (SECTOR_SIZE * transfer_size sc) = 512 * min (unat sc) 128"
proof -
  have "512 * min (unat sc) 128 < 2 ^ 32"
    by (rule le_less_trans [of _ "512 * 128"]) simp_all
  then show ?thesis
    by (simp add: SECTOR_SIZE_def unat_word_ariths transfer_size_unat)
qed

lemma hdd_read_loop_unfold:
  "hdd_read_loop disk sc blkno t k c =
     (if 0 < sc
      then case hdd_rw disk IO_READ Controller_buffer (transfer_size sc) blkno c of
             Inl f \<Rightarrow> Inl f
           | Inr (err, c1) \<Rightarrow>
               if err \<noteq> 0 then Inr ((EIO, t, k), c1)
               else hdd_read_loop disk (sc - transfer_size sc) (blkno + transfer_size sc)
                      (t + SECTOR_SIZE * transfer_size sc)
                      (k @ take (unat (SECTOR_SIZE * transfer_size sc)) (buffer c1)) c1
      else Inr ((0, t, k), c))"
  unfolding transfer_size_def
  by (subst hdd_read_loop.simps) (simp only: Let_def)

lemma hdd_read_loop_result:
  assumes "hdd_read_loop disk sc blkno t k c = Inr ((r, n1, data), c1)"
  shows "\<exists>chunks. loop_outcome disk sc t k c r n1 data c1 chunks"
  using assms
proof (induction disk sc blkno t k c rule: hdd_read_loop.induct)
  case (1 disk sc blkno t k c)
  show ?case
  proof (cases "0 < sc")
    case False
    then have "unat sc = 0"
      by (simp add: word_less_nat_alt)
    moreover from False "1.prems" have "r = 0" "n1 = t" "data = k" "c1 = c"
      by (simp_all add: hdd_read_loop_unfold)
    ultimately have "loop_outcome disk sc t k c r n1 data c1 []"
      by (simp add: loop_outcome_def)
    then show ?thesis ..
  next
    case True
    define x where "x = transfer_size sc"
    have xd: "x = (if BUFFER_LENGTH_IN_SECTORS < sc then BUFFER_LENGTH_IN_SECTORS else sc)"
      by (simp add: x_def transfer_size_def)
    from True have pos: "0 < unat sc"
      by (simp add: word_less_nat_alt)
    have ux: "unat x = min (unat sc) 128" and ur: "unat (sc - x) = unat sc - min (unat sc) 128"
      and ub: "unat (SECTOR_SIZE * x) = 512 * min (unat sc) 128"
      by (simp_all add: x_def transfer_size_unat transfer_size_rest transfer_size_bytes)
    from "1.prems" True obtain err c0 where
      rw: "hdd_rw disk IO_READ Controller_buffer x blkno c = Inr (err, c0)"
      by (cases "hdd_rw disk IO_READ Controller_buffer x blkno c")
         (auto simp: hdd_read_loop_unfold x_def)
    have iss: "issued c0 = issued c @ [(scast blkno, x)]"
      using hdd_rw_issued [of disk x blkno c] rw by simp
    show ?thesis
    proof (cases "err = 0")
      case False
      with "1.prems" True rw have "r = EIO" "n1 = t" "data = k" "c1 = c0"
        by (simp_all add: hdd_read_loop_unfold x_def)
      with iss rw False pos ux have "loop_outcome disk sc t k c r n1 data c1 [(scast blkno, x)]"
        by (auto simp: loop_outcome_def EIO_def)
      then show ?thesis ..
    next
      case z: True
      from "1.prems" True rw z
      have rec: "hdd_read_loop disk (sc - x) (blkno + x) (t + SECTOR_SIZE * x)
                   (k @ take (unat (SECTOR_SIZE * x)) (buffer c0)) c0 = Inr ((r, n1, data), c1)"
        by (simp add: hdd_read_loop_unfold x_def)
      from z have nz: "\<not> err \<noteq> 0"
        by simp
      from "1.IH" [OF True xd refl rw refl nz rec]
      obtain chunks where "loop_outcome disk (sc - x) (t + SECTOR_SIZE * x)
          (k @ take (unat (SECTOR_SIZE * x)) (buffer c0)) c0 r n1 data c1 chunks" ..
      then have c: "issued c1 = issued c0 @ chunks" "r = 0 \<or> r = EIO"
        "r = 0 \<longrightarrow> map (unat \<circ> snd) chunks = chunk_sizes (unat (sc - x))"
        "r \<noteq> 0 \<longrightarrow> chunks \<noteq> []
           \<and> (\<exists>n b c0 err. hdd_rw disk IO_READ Controller_buffer n b c0 = Inr (err, c1) \<and> err \<noteq> 0)"
        "sum_list (map (unat \<circ> snd) chunks) \<le> unat (sc - x)"
        "n1 = t + SECTOR_SIZE * x + SECTOR_SIZE *
            of_nat (sum_list (map (unat \<circ> snd) (if r = 0 then chunks else butlast chunks)))"
        "length data = length (k @ take (unat (SECTOR_SIZE * x)) (buffer c0)) + 512 *
            sum_list (map (unat \<circ> snd) (if r = 0 then chunks else butlast chunks))"
        unfolding loop_outcome_def by blast+
      have "unat (x * SECTOR_SIZE) \<le> length (buffer c0)"
        using hdd_rw_success_buffer [of disk x blkno c c0] rw z by simp
      then have lb: "length (take (unat (SECTOR_SIZE * x)) (buffer c0)) = 512 * min (unat sc) 128"
        using ub by (simp add: mult.commute)
      let ?all = "(scast blkno, x) # chunks"
      have 1: "issued c1 = issued c @ ?all"
        using c(1) iss by simp
      have 3: "r = 0 \<longrightarrow> map (unat \<circ> snd) ?all = chunk_sizes (unat sc)"
        using c(3) ux ur chunk_sizes_rec [OF pos] by simp
      have 4: "r \<noteq> 0 \<longrightarrow> ?all \<noteq> []
           \<and> (\<exists>n b c0 err. hdd_rw disk IO_READ Controller_buffer n b c0 = Inr (err, c1) \<and> err \<noteq> 0)"
        using c(4) by simp
      have 5: "sum_list (map (unat \<circ> snd) ?all) \<le> unat sc"
        using c(5) ux ur by simp
      have cmp: "sum_list (map (unat \<circ> snd) (if r = 0 then ?all else butlast ?all))
            = unat x + sum_list (map (unat \<circ> snd) (if r = 0 then chunks else butlast chunks))"
        using c(4) by simp
      have 6: "n1 = t + SECTOR_SIZE *
            of_nat (sum_list (map (unat \<circ> snd) (if r = 0 then ?all else butlast ?all)))"
        unfolding cmp using c(6) by (simp add: algebra_simps)
      have 7: "length data = length k + 512 *
            sum_list (map (unat \<circ> snd) (if r = 0 then ?all else butlast ?all))"
        unfolding cmp using c(7) lb ux by simp
      from 1 c(2) 3 4 5 6 7 have "loop_outcome disk sc t k c r n1 data c1 ?all"
        unfolding loop_outcome_def by blast
      then show ?thesis ..
    qed
  qed
qed

subsection \<open>Reads that succeed\<close>

lemma hdd_read_unfold:
  assumes "adjust_blkno dev blkno = (disk, blkno1, sector_limit)"
  shows "hdd_read dev buf nbyte blkno c =
     (if blkno1 <s 0 \<or> sector_limit \<le> blkno1 + nbyte div SECTOR_SIZE
      then Inr ((EIO, nbyte, []), c)
      else if \<not> kmem_map c buf nbyte then Inr ((EFAULT, nbyte, []), c)
      else hdd_read_loop disk (nbyte div SECTOR_SIZE) blkno1 0 [] c)"
  using assms by (simp add: hdd_read_def Let_def)

lemma unat_sector_count: "unat (nbyte div SECTOR_SIZE) = unat nbyte div 512"
  by (simp add: SECTOR_SIZE_def unat_div)

lemma hdd_read_success_loop:
  assumes "hdd_read dev buf nbyte blkno c = Inr ((0, n1, data), c1)"
  shows "\<exists>disk blkno1. hdd_read_loop disk (nbyte div SECTOR_SIZE) blkno1 0 [] c
           = Inr ((0, n1, data), c1)"
proof -
  obtain disk blkno1 sector_limit where a: "adjust_blkno dev blkno = (disk, blkno1, sector_limit)"
    by (cases "adjust_blkno dev blkno")
  from assms show ?thesis
    unfolding hdd_read_unfold [OF a]
    by (auto simp: EIO_def EFAULT_def split: if_splits)
qed

text \<open>
  C4, amended. A read of \<open>nbyte\<close> bytes that returns 0 (it passed the bounds check and
  the mapping of the caller's buffer, and every chunk succeeded) has submitted
  \<open>ceil ((nbyte / 512) / 128)\<close> commands to the request engine; submission \<open>k\<close> has the
  sector count \<open>min (nbyte / 512 - 128 * k, 128)\<close>, the minimum of what remained and 128;
  and the sector counts add up to \<open>nbyte / 512\<close>. The mapping is a condition: a read
  that passes the bounds check and whose buffer cannot be mapped returns \<open>EFAULT\<close> before
  the first submission.
\<close>

theorem hdd_read_chunking:
  assumes "hdd_read dev buf nbyte blkno c = Inr ((0, n1, data), c1)"
  shows "\<exists>chunks. issued c1 = issued c @ chunks
           \<and> length chunks = (unat nbyte div 512 + 127) div 128
           \<and> (\<forall>k < length chunks.
                 unat (snd (chunks ! k)) = min (unat nbyte div 512 - 128 * k) 128)
           \<and> sum_list (map (unat \<circ> snd) chunks) = unat nbyte div 512"
proof -
  from hdd_read_success_loop [OF assms] obtain disk blkno1 where
    "hdd_read_loop disk (nbyte div SECTOR_SIZE) blkno1 0 [] c = Inr ((0, n1, data), c1)"
    by blast
  from hdd_read_loop_result [OF this] obtain chunks where
    "loop_outcome disk (nbyte div SECTOR_SIZE) 0 [] c 0 n1 data c1 chunks" ..
  then have i: "issued c1 = issued c @ chunks"
    and m: "map (unat \<circ> snd) chunks = chunk_sizes (unat nbyte div 512)"
    by (simp_all add: loop_outcome_def unat_sector_count)
  from m have l: "length chunks = (unat nbyte div 512 + 127) div 128"
    by (metis chunk_sizes_def length_map length_upt minus_nat.diff_0)
  have "unat (snd (chunks ! k)) = min (unat nbyte div 512 - 128 * k) 128"
    if "k < length chunks" for k
  proof -
    from that have "unat (snd (chunks ! k)) = map (unat \<circ> snd) chunks ! k"
      by simp
    also have "\<dots> = min (unat nbyte div 512 - 128 * k) 128"
      using that l unfolding m chunk_sizes_def by simp
    finally show ?thesis .
  qed
  moreover have "sum_list (map (unat \<circ> snd) chunks) = unat nbyte div 512"
    unfolding m by (rule sum_list_chunk_sizes)
  ultimately show ?thesis
    using i l by blast
qed

text \<open>
  C10, amended. A read that returns 0 has transferred exactly
  \<open>floor (nbyte / 512) * 512\<close> bytes and set \<open>*nbyte\<close> to that, whether or not \<open>nbyte\<close>
  is a multiple of 512; and a read of fewer than 512 bytes that passes the bounds check
  and the mapping issues no command, leaves the machine as it was and returns 0 with
  \<open>*nbyte = 0\<close>.
\<close>

theorem hdd_read_partial_sector:
  "(hdd_read dev buf nbyte blkno c = Inr ((0, n1, data), c1)
      \<longrightarrow> unat n1 = 512 * (unat nbyte div 512) \<and> length data = unat n1)
   \<and> (nbyte < 512 \<longrightarrow> kmem_map c buf nbyte
        \<longrightarrow> \<not> (fst (snd (adjust_blkno dev blkno)) <s 0
                 \<or> snd (snd (adjust_blkno dev blkno))
                       \<le> fst (snd (adjust_blkno dev blkno)) + nbyte div SECTOR_SIZE)
        \<longrightarrow> hdd_read dev buf nbyte blkno c = Inr ((0, 0, []), c))"
proof (intro conjI impI)
  assume a: "hdd_read dev buf nbyte blkno c = Inr ((0, n1, data), c1)"
  from hdd_read_success_loop [OF a] obtain disk blkno1 where
    "hdd_read_loop disk (nbyte div SECTOR_SIZE) blkno1 0 [] c = Inr ((0, n1, data), c1)"
    by blast
  from hdd_read_loop_result [OF this] obtain chunks where
    "loop_outcome disk (nbyte div SECTOR_SIZE) 0 [] c 0 n1 data c1 chunks" ..
  then have m: "map (unat \<circ> snd) chunks = chunk_sizes (unat nbyte div 512)"
    and n: "n1 = SECTOR_SIZE * of_nat (sum_list (map (unat \<circ> snd) chunks))"
    and d: "length data = 512 * sum_list (map (unat \<circ> snd) chunks)"
    by (simp_all add: loop_outcome_def unat_sector_count)
  have s: "sum_list (map (unat \<circ> snd) chunks) = unat nbyte div 512"
    unfolding m by (rule sum_list_chunk_sizes)
  have "512 * (unat nbyte div 512) \<le> unat nbyte"
    by simp
  also have "\<dots> < 2 ^ 32"
    using unsigned_less [of nbyte] by simp
  finally have "512 * (unat nbyte div 512) < (2 :: nat) ^ 32" .
  then show n1: "unat n1 = 512 * (unat nbyte div 512)"
    unfolding n s by (simp add: SECTOR_SIZE_def unat_word_ariths unat_of_nat)
  show "length data = unat n1"
    unfolding n1 d s ..
next
  assume small: "nbyte < 512" and "kmem_map c buf nbyte"
    and "\<not> (fst (snd (adjust_blkno dev blkno)) <s 0
            \<or> snd (snd (adjust_blkno dev blkno))
                  \<le> fst (snd (adjust_blkno dev blkno)) + nbyte div SECTOR_SIZE)"
  moreover have "nbyte div SECTOR_SIZE = 0"
  proof -
    from small have "unat nbyte < 512"
      by (simp add: word_less_nat_alt)
    then have "unat (nbyte div SECTOR_SIZE) = 0"
      by (simp add: unat_sector_count)
    then show ?thesis
      by (simp add: unat_eq_0)
  qed
  ultimately show "hdd_read dev buf nbyte blkno c = Inr ((0, 0, []), c)"
    by (cases "adjust_blkno dev blkno")
       (simp add: hdd_read_def Let_def hdd_read_loop_unfold)
qed

subsection \<open>Hardware that does not fail\<close>

lemma and_3_dvd: "(count :: u32) AND 3 = 0 \<longleftrightarrow> 4 dvd unat count"
  using and_mask_dvd_nat [of 2 count] by (simp add: mask_eq_exp_minus_1)

lemma ata_pio_read_loop_returns:
  "count AND 3 = 0 \<Longrightarrow> \<exists>bytes c1. ata_pio_read_loop channelnum count stored c = Inr (bytes, c1)"
proof (induction channelnum count stored c rule: ata_pio_read_loop.induct)
  case (1 channelnum count stored c)
  show ?case
  proof (cases "count = 0")
    case True
    then show ?thesis
      by (subst ata_pio_read_loop.simps) simp
  next
    case False
    from "1.prems" have d: "4 dvd unat count"
      by (simp add: and_3_dvd)
    from False have "unat count \<noteq> 0"
      by (simp add: unat_eq_0)
    with d have "4 \<le> unat count"
      by (auto dest: dvd_imp_le)
    then have n4: "\<not> count < 4"
      by (simp add: word_less_nat_alt)
    then have "4 \<le> count"
      by simp
    then have "unat (count - 4) = unat count - 4"
      by (simp add: unat_sub)
    with d \<open>4 \<le> unat count\<close> have "(count - 4) AND 3 = 0"
      by (simp add: and_3_dvd)
    obtain v c0 where r: "bus_read_32 (base_port (channels c channelnum) + ATA_REG_DATA) c = (v, c0)"
      by (cases "bus_read_32 (base_port (channels c channelnum) + ATA_REG_DATA) c")
    from "1.IH" [OF False n4 r [symmetric] \<open>(count - 4) AND 3 = 0\<close>] False n4 r show ?thesis
      by (subst ata_pio_read_loop.simps) simp
  qed
qed

lemma sectors_and_3: "(n * SECTOR_SIZE) AND 3 = (0 :: u32)"
proof -
  have "4 dvd unat n * 512"
    by simp
  then have "4 dvd (unat n * 512) mod 2 ^ 32"
    by (simp add: dvd_mod)
  then show ?thesis
    by (simp add: and_3_dvd SECTOR_SIZE_def unat_word_ariths)
qed

lemma hdc_ist_healthy:
  assumes "healthy c" and "active_disk c = Some disk" and "irp_cmd (irp c) = IO_READ"
    and "irp_buf (irp c) = Controller_buffer"
    and "unat (irp_blksz (irp c) * SECTOR_SIZE) \<le> length (buffer c)"
  shows "\<exists>c1. hdc_ist c = Inr ((), c1) \<and> irp_error (irp c1) = 0 \<and> pending c1 = pending c"
proof -
  obtain status c0 where r: "ata_read (channel disk) ATA_REG_COMMAND_STATUS c = (status, c0)"
    by (cases "ata_read (channel disk) ATA_REG_COMMAND_STATUS c")
  have io0: "only_io c c0"
    using ata_read_io [of c "channel disk" ATA_REG_COMMAND_STATUS] r by simp
  from r assms(1) have ok: "ucast status AND (ATA_STATUS_FLAG_ERROR OR ATA_STATUS_FLAG_DEVICE_FAILURE) = 0"
    using ist_mask [of status]
    by (auto simp: ata_read_def bus_read_8_def Let_def healthy_def)
  define c3 where "c3 = c0\<lparr>active_disk := None, irp := (irp c0)\<lparr>irp_error := 0\<rparr>\<rparr>"
  have f3: "irp c3 = (irp c)\<lparr>irp_error := 0\<rparr>" "buffer c3 = buffer c" "pending c3 = pending c"
    using only_io_fields [OF io0] by (simp_all add: c3_def)
  have unf: "hdc_ist c =
      (case irp_cmd (irp c3) of
         IO_READ \<Rightarrow>
           (case ata_pio_read (channel disk) (irp_blksz (irp c3) * SECTOR_SIZE) c3 of
              Inl f \<Rightarrow> Inl f
            | Inr (bytes, c4) \<Rightarrow>
                (case store_irp_buf bytes c4 of
                   Inl f \<Rightarrow> Inl f
                 | Inr (u, c5) \<Rightarrow> Inr ((), sched_wakeup c5)))
       | IO_WRITE \<Rightarrow> Inl (Panic, c3)
       | IO_NONE \<Rightarrow> Inl (Panic, c3))"
    unfolding c3_def using assms(2) r ok
    by (simp add: hdc_ist_def Let_def cong: io_cmd.case_cong)
  obtain bytes c4 where
    p: "ata_pio_read (channel disk) (irp_blksz (irp c3) * SECTOR_SIZE) c3 = Inr (bytes, c4)"
    using ata_pio_read_loop_returns [OF sectors_and_3, of "channel disk" "irp_blksz (irp c3)" "[]" c3]
    by (auto simp: ata_pio_read_def sectors_and_3)
  have io4: "only_io c3 c4"
    using ata_pio_read_io [of c3 "channel disk" "irp_blksz (irp c3) * SECTOR_SIZE"] p by simp
  have len: "length bytes = unat (irp_blksz (irp c) * SECTOR_SIZE)"
    using ata_pio_read_length [OF p] by (simp add: f3)
  have f4: "irp c4 = (irp c)\<lparr>irp_error := 0\<rparr>" "buffer c4 = buffer c" "pending c4 = pending c"
    using only_io_fields [OF io4] f3 by simp_all
  have s: "store_irp_buf bytes c4
           = Inr ((), c4\<lparr>buffer := bytes @ drop (length bytes) (buffer c4)\<rparr>)"
    using assms(4,5) len f4 by (simp add: store_irp_buf_def)
  have "hdc_ist c = Inr ((), sched_wakeup (c4\<lparr>buffer := bytes @ drop (length bytes) (buffer c4)\<rparr>))"
    unfolding unf using assms(3) f3 p s by simp
  then show ?thesis
    using f4 by (simp add: sched_wakeup_def)
qed

lemma hdd_rw_healthy:
  assumes "healthy c" and "pending c = Irq # ws"
    and "unat (n * SECTOR_SIZE) \<le> length (buffer c)"
  shows "\<exists>c1. hdd_rw disk IO_READ Controller_buffer n blkno c = Inr (0, c1)
              \<and> pending c1 = ws \<and> healthy c1 \<and> length (buffer c1) = length (buffer c)
              \<and> kmem_map c1 = kmem_map c"
proof -
  define ci where "ci = issue_read disk n blkno c"
  note f = issue_read_fields [of disk n blkno c, folded ci_def]
  define c0 where "c0 = ci\<lparr>iocomp := False, pending := ws\<rparr>"
  obtain status ca where r: "read_altstatus (channel disk) c0 = (status, ca)"
    by (cases "read_altstatus (channel disk) c0")
  have ioa: "only_io c0 ca"
    using read_altstatus_io [of c0 "channel disk"] r by simp
  have "bit status 3"
    using r assms(1) f(3)
    by (auto simp: read_altstatus_def bus_read_8_def Let_def healthy_def c0_def)
  then have isr: "hdc_isr c0 = Inr (INT_CONTINUE, ca)"
    using r f(1) by (simp add: hdc_isr_def c0_def isr_mask)
  have fa: "active_disk ca = Some disk" "irp_cmd (irp ca) = IO_READ"
    "irp_buf (irp ca) = Controller_buffer" "irp_blksz (irp ca) = n" "buffer ca = buffer c"
    "dev_in8 ca = dev_in8 c" "pending ca = ws"
    using only_io_fields [OF ioa] f by (simp_all add: c0_def)
  have ha: "healthy ca"
    using assms(1) fa(6) by (simp add: healthy_def)
  from hdc_ist_healthy [OF ha fa(1,2,3)] assms(3) fa(4,5,7)
  obtain c1 where ist: "hdc_ist ca = Inr ((), c1)" and e: "irp_error (irp c1) = 0"
    and p: "pending c1 = ws"
    by auto
  have w: "iocomp c1"
    using hdc_ist_returns [OF ist] by simp
  have "interrupt c0 = Inr ((), c1)"
    using isr ist by (simp add: interrupt_def)
  then have "sched_sleep ci = Inr (SLP_SUCCESS, c1)"
    using assms(2) f(2) w by (simp add: sched_sleep_def c0_def)
  then have rw: "hdd_rw disk IO_READ Controller_buffer n blkno c = Inr (0, c1)"
    using e by (simp add: hdd_rw_read ci_def)
  have u: "undisturbed ci c1"
    using hdd_rw_undisturbed [of disk n blkno c] rw by (simp add: ci_def)
  have "healthy c1" "length (buffer c1) = length (buffer c)" "kmem_map c1 = kmem_map c"
    using undisturbed_fields [OF u] f assms(1) by (simp_all add: healthy_def)
  with rw p show ?thesis
    by blast
qed

lemma hdd_read_loop_healthy:
  assumes "healthy c" and "65536 \<le> length (buffer c)"
    and "pending c = replicate (length (chunk_sizes (unat sc))) Irq @ ws"
  shows "\<exists>n1 data c1. hdd_read_loop disk sc blkno t k c = Inr ((0, n1, data), c1)
           \<and> pending c1 = ws"
  using assms
proof (induction disk sc blkno t k c rule: hdd_read_loop.induct)
  case (1 disk sc blkno t k c)
  show ?case
  proof (cases "0 < sc")
    case False
    then have "unat sc = 0"
      by (simp add: word_less_nat_alt)
    with False "1.prems"(3) show ?thesis
      by (simp add: hdd_read_loop_unfold)
  next
    case True
    define x where "x = transfer_size sc"
    have xd: "x = (if BUFFER_LENGTH_IN_SECTORS < sc then BUFFER_LENGTH_IN_SECTORS else sc)"
      by (simp add: x_def transfer_size_def)
    from True have pos: "0 < unat sc"
      by (simp add: word_less_nat_alt)
    have ur: "unat (sc - x) = unat sc - min (unat sc) 128"
      and ub: "unat (SECTOR_SIZE * x) = 512 * min (unat sc) 128"
      by (simp_all add: x_def transfer_size_rest transfer_size_bytes)
    have p: "pending c = Irq # (replicate (length (chunk_sizes (unat (sc - x)))) Irq @ ws)"
      using "1.prems"(3) chunk_sizes_rec [OF pos] ur by simp
    have "unat (x * SECTOR_SIZE) \<le> length (buffer c)"
      using ub "1.prems"(2) by (simp add: mult.commute)
    from hdd_rw_healthy [OF "1.prems"(1) p this, of disk blkno]
    obtain c0 where rw: "hdd_rw disk IO_READ Controller_buffer x blkno c = Inr (0, c0)"
      and c0: "pending c0 = replicate (length (chunk_sizes (unat (sc - x)))) Irq @ ws"
        "healthy c0" "length (buffer c0) = length (buffer c)"
      by blast
    have nz: "\<not> (0 :: u32) \<noteq> 0"
      by simp
    from "1.IH" [OF True xd refl rw refl nz c0(2) _ c0(1)] c0(3) "1.prems"(2)
    obtain n1 data c1 where
      "hdd_read_loop disk (sc - x) (blkno + x) (t + SECTOR_SIZE * x)
         (k @ take (unat (SECTOR_SIZE * x)) (buffer c0)) c0 = Inr ((0, n1, data), c1)"
      "pending c1 = ws"
      by auto
    with True rw show ?thesis
      by (simp add: hdd_read_loop_unfold x_def)
  qed
qed

lemma healthy_mock: "healthy (mock_controller (answering 0x58) in32 ws)"
  by (simp add: healthy_def mock_controller_def answering_def)

lemma mock_fields:
  "length (buffer (mock_controller in8 in32 ws)) = 65536"
  "pending (mock_controller in8 in32 ws) = ws"
  "issued (mock_controller in8 in32 ws) = []"
  "kmem_map (mock_controller in8 in32 ws) buf nbyte"
  by (simp_all add: mock_controller_def)

theorem hdd_read_chunking_witness:
  "\<exists>n1 data c1 chunks.
     hdd_read (ATA_DEVICE_PARTITION (mock_partition 2048 1000000)) 0 131072 100
       (mock_controller (answering 0x58) (answering 0) [Irq, Irq]) = Inr ((0, n1, data), c1)
     \<and> issued c1 = chunks \<and> length chunks = 2
     \<and> unat (snd (chunks ! 0)) = 128 \<and> unat (snd (chunks ! 1)) = 128
     \<and> sum_list (map (unat \<circ> snd) chunks) = 256"
proof -
  let ?c = "mock_controller (answering 0x58) (answering 0) [Irq, Irq]"
  have n: "(131072 :: u32) div SECTOR_SIZE = 256"
    by (simp add: SECTOR_SIZE_def)
  have "length (chunk_sizes (unat (256 :: u32))) = 2"
    by (simp add: chunk_sizes_def)
  then have "pending ?c = replicate (length (chunk_sizes (unat (256 :: u32)))) Irq @ []"
    by (simp add: mock_fields numeral_2_eq_2)
  from hdd_read_loop_healthy [OF healthy_mock _ this, of mock_disk 2148 0 "[]"]
  obtain n1 data c1 where
    "hdd_read_loop mock_disk 256 2148 0 [] ?c = Inr ((0, n1, data), c1)"
    by (auto simp: mock_fields)
  then have r: "hdd_read (ATA_DEVICE_PARTITION (mock_partition 2048 1000000)) 0 131072 100 ?c
                = Inr ((0, n1, data), c1)"
    by (simp add: hdd_read_def n mock_partition_def mock_fields word_le_nat_alt word_sless_alt)
  from hdd_read_chunking [OF r] show ?thesis
    using r by (auto simp: mock_fields)
qed

theorem hdd_read_partial_sector_witness:
  "(\<exists>n1 data c1.
      hdd_read (ATA_DEVICE_WHOLEDISK mock_disk) 0 1000 0
        (mock_controller (answering 0x58) (answering 0) [Irq]) = Inr ((0, n1, data), c1)
      \<and> unat n1 = 512 \<and> length data = 512)
   \<and> hdd_read (ATA_DEVICE_WHOLEDISK mock_disk) 0 100 0
        (mock_controller (answering 0x58) (answering 0) [])
      = Inr ((0, 0, []), mock_controller (answering 0x58) (answering 0) [])"
proof -
  let ?c = "mock_controller (answering 0x58) (answering 0) [Irq]"
  let ?idle = "mock_controller (answering 0x58) (answering 0) []"
  have n: "(1000 :: u32) div SECTOR_SIZE = 1" "(100 :: u32) div SECTOR_SIZE = 0"
    by (simp_all add: SECTOR_SIZE_def)
  have cs: "chunk_sizes (Suc 0) = [Suc 0]"
    by (simp add: chunk_sizes_def)
  have "pending ?c = replicate (length (chunk_sizes (unat (1 :: u32)))) Irq @ []"
    by (simp add: mock_fields cs)
  from hdd_read_loop_healthy [OF healthy_mock _ this, of mock_disk 0 0 "[]"]
  obtain n1 data c1 where
    "hdd_read_loop mock_disk 1 0 0 [] ?c = Inr ((0, n1, data), c1)"
    by (auto simp: mock_fields)
  then have r: "hdd_read (ATA_DEVICE_WHOLEDISK mock_disk) 0 1000 0 ?c = Inr ((0, n1, data), c1)"
    by (simp add: hdd_read_def n mock_disk_def mock_fields word_le_nat_alt word_sless_alt)
  from hdd_read_partial_sector [of "ATA_DEVICE_WHOLEDISK mock_disk" 0 1000 0 ?c n1 data c1,
      THEN conjunct1, THEN mp, OF r]
  have 1: "\<exists>n1 data c1. hdd_read (ATA_DEVICE_WHOLEDISK mock_disk) 0 1000 0 ?c
             = Inr ((0, n1, data), c1) \<and> unat n1 = 512 \<and> length data = 512"
    using r by auto
  from hdd_read_partial_sector [of "ATA_DEVICE_WHOLEDISK mock_disk" 0 100 0 ?idle,
      THEN conjunct2]
  have 2: "hdd_read (ATA_DEVICE_WHOLEDISK mock_disk) 0 100 0 ?idle = Inr ((0, 0, []), ?idle)"
    by (simp add: n mock_disk_def mock_fields word_le_nat_alt word_sless_alt)
  from 1 2 show ?thesis
    by blast
qed

subsection \<open>The first command of a read\<close>

lemma uint_scast_nonneg:
  fixes b :: u32
  assumes "\<not> b <s 0"
  shows "uint (scast b :: u64) = sint b" and "sint b = uint b"
proof -
  from assms have nn: "0 \<le> sint b"
    by (simp add: word_sless_alt)
  have lt: "sint b < 2 ^ 31"
    using sint_lt [of b] by simp
  have "uint (scast b :: u64) = uint (word_of_int (sint b) :: u64)"
    by (simp only: scast_eq)
  also have "\<dots> = sint b mod 2 ^ 64"
    by (subst uint_word_of_int) simp
  also have "\<dots> = sint b"
    using nn lt by simp
  finally show "uint (scast b :: u64) = sint b" .
  have "uint b = sint b mod 2 ^ 32"
    by (simp add: uint_sint take_bit_eq_mod)
  also have "\<dots> = sint b"
    using nn lt by simp
  finally show "sint b = uint b" ..
qed

lemma uint_rebase:
  fixes b s :: u32
  shows "uint (b + s) = (uint s + sint b) mod 2 ^ 32"
proof -
  have "uint b = sint b mod 2 ^ 32"
    by (simp add: uint_sint take_bit_eq_mod)
  then have "uint (b + s) = (sint b mod 2 ^ 32 + uint s) mod 2 ^ 32"
    by (simp add: uint_word_ariths)
  also have "\<dots> = (uint s + sint b) mod 2 ^ 32"
    by (metis add.commute mod_add_left_eq)
  finally show ?thesis .
qed

lemma mod_negative_wrap:
  fixes x :: int
  assumes "- (2 ^ 31) \<le> x" and "x < 0"
  shows "x mod 2 ^ 32 = x + 2 ^ 32"
proof -
  have "x mod 2 ^ 32 = (x + 2 ^ 32) mod 2 ^ 32"
    by simp
  also have "\<dots> = x + 2 ^ 32"
    using assms by (intro mod_pos_pos_trivial) simp_all
  finally show ?thesis .
qed

lemma hdd_read_loop_issued_prefix:
  "\<exists>rest. issued (final (hdd_read_loop disk sc blkno t k c)) = issued c @ rest"
proof (induction disk sc blkno t k c rule: hdd_read_loop.induct)
  case (1 disk sc blkno t k c)
  show ?case
  proof (cases "0 < sc")
    case False
    then show ?thesis
      by (simp add: hdd_read_loop_unfold)
  next
    case True
    define x where "x = transfer_size sc"
    have xd: "x = (if BUFFER_LENGTH_IN_SECTORS < sc then BUFFER_LENGTH_IN_SECTORS else sc)"
      by (simp add: x_def transfer_size_def)
    have iss: "issued (final (hdd_rw disk IO_READ Controller_buffer x blkno c))
               = issued c @ [(scast blkno, x)]"
      by (rule hdd_rw_issued)
    show ?thesis
    proof (cases "hdd_rw disk IO_READ Controller_buffer x blkno c")
      case (Inl f)
      with iss True show ?thesis
        by (cases f) (simp add: hdd_read_loop_unfold x_def)
    next
      case (Inr ec)
      obtain err c0 where ec: "ec = (err, c0)"
        by (cases ec)
      show ?thesis
      proof (cases "err = 0")
        case False
        with Inr ec iss True show ?thesis
          by (simp add: hdd_read_loop_unfold x_def)
      next
        case z: True
        then have nz: "\<not> err \<noteq> 0"
          by simp
        from "1.IH" [OF True xd refl Inr [unfolded ec] refl nz]
        obtain rest where "issued (final (hdd_read_loop disk (sc - x) (blkno + x)
            (t + SECTOR_SIZE * x) (k @ take (unat (SECTOR_SIZE * x)) (buffer c0)) c0))
            = issued c0 @ rest" ..
        with Inr ec iss True z show ?thesis
          by (simp add: hdd_read_loop_unfold x_def)
      qed
    qed
  qed
qed

lemma hdd_read_loop_first_command:
  assumes "0 < sc"
  shows "\<exists>rest. issued (final (hdd_read_loop disk sc blkno t k c))
           = issued c @ (scast blkno, transfer_size sc) # rest"
proof -
  define x where "x = transfer_size sc"
  have iss: "issued (final (hdd_rw disk IO_READ Controller_buffer x blkno c))
             = issued c @ [(scast blkno, x)]"
    by (rule hdd_rw_issued)
  show ?thesis
  proof (cases "hdd_rw disk IO_READ Controller_buffer x blkno c")
    case (Inl f)
    with iss assms show ?thesis
      by (cases f) (simp add: hdd_read_loop_unfold x_def)
  next
    case (Inr ec)
    obtain err c0 where ec: "ec = (err, c0)"
      by (cases ec)
    show ?thesis
    proof (cases "err = 0")
      case False
      with Inr ec iss assms show ?thesis
        by (simp add: hdd_read_loop_unfold x_def)
    next
      case True
      from hdd_read_loop_issued_prefix [of disk "sc - x" "blkno + x" "t + SECTOR_SIZE * x"
          "k @ take (unat (SECTOR_SIZE * x)) (buffer c0)" c0]
      obtain rest where "issued (final (hdd_read_loop disk (sc - x) (blkno + x)
          (t + SECTOR_SIZE * x) (k @ take (unat (SECTOR_SIZE * x)) (buffer c0)) c0))
          = issued c0 @ rest" ..
      with Inr ec iss assms True show ?thesis
        by (simp add: hdd_read_loop_unfold x_def)
    qed
  qed
qed

text \<open>
  The first command of a read that reaches the hardware (it passes the bounds check and
  the mapping and asks for at least one sector) carries the block number that
  \<open>adjust_blkno\<close> computed, in the 32-bit \<open>int\<close> arithmetic of the code: for a whole disk
  the caller's block number \<open>b\<close> unadjusted, for a partition with \<open>start_lba = S\<close> the
  sum \<open>S + b\<close> whenever \<open>S + b < 2 ^ 32\<close>. This holds however the read ends.
\<close>

lemma first_command_lba:
  assumes "adjust_blkno dev blkno = (disk, blkno1, sector_limit)"
    and "\<not> (blkno1 <s 0 \<or> sector_limit \<le> blkno1 + nbyte div SECTOR_SIZE)"
    and "kmem_map c buf nbyte"
    and "512 \<le> nbyte"
  shows "\<exists>lba rest.
           issued (final (hdd_read dev buf nbyte blkno c))
             = issued c @ (lba, transfer_size (nbyte div SECTOR_SIZE)) # rest
           \<and> (case dev of
                 ATA_DEVICE_WHOLEDISK wholedisk \<Rightarrow> uint lba = sint blkno
               | ATA_DEVICE_PARTITION part \<Rightarrow>
                   uint lba = (uint (part_start_lba part) + sint blkno) mod 2 ^ 32
                   \<and> (uint (part_start_lba part) + sint blkno < 2 ^ 32
                        \<longrightarrow> uint lba = uint (part_start_lba part) + sint blkno))"
proof -
  from assms(4) have "512 \<le> unat nbyte"
    by (simp add: word_le_nat_alt)
  then have "0 < unat (nbyte div SECTOR_SIZE)"
    by (simp add: unat_sector_count div_greater_zero_iff)
  then have pos: "0 < nbyte div SECTOR_SIZE"
    by (simp add: word_less_nat_alt)
  have "hdd_read dev buf nbyte blkno c = hdd_read_loop disk (nbyte div SECTOR_SIZE) blkno1 0 [] c"
    using assms(2,3) by (simp add: hdd_read_unfold [OF assms(1)])
  with hdd_read_loop_first_command [OF pos, of disk blkno1 0 "[]" c]
  obtain rest where i: "issued (final (hdd_read dev buf nbyte blkno c))
      = issued c @ (scast blkno1, transfer_size (nbyte div SECTOR_SIZE)) # rest"
    by auto
  from assms(2) have nn: "\<not> blkno1 <s 0"
    by simp
  have l: "uint (scast blkno1 :: u64) = uint blkno1" "uint (scast blkno1 :: u64) = sint blkno1"
    using uint_scast_nonneg [OF nn] by simp_all
  have "case dev of
          ATA_DEVICE_WHOLEDISK wholedisk \<Rightarrow> uint (scast blkno1 :: u64) = sint blkno
        | ATA_DEVICE_PARTITION part \<Rightarrow>
            uint (scast blkno1 :: u64) = (uint (part_start_lba part) + sint blkno) mod 2 ^ 32
            \<and> (uint (part_start_lba part) + sint blkno < 2 ^ 32
                 \<longrightarrow> uint (scast blkno1 :: u64) = uint (part_start_lba part) + sint blkno)"
  proof (cases dev)
    case (ATA_DEVICE_WHOLEDISK wholedisk)
    with assms(1) l(2) show ?thesis
      by simp
  next
    case (ATA_DEVICE_PARTITION part)
    with assms(1) have b: "blkno1 = blkno + part_start_lba part"
      by simp
    have m: "uint (scast blkno1 :: u64) = (uint (part_start_lba part) + sint blkno) mod 2 ^ 32"
      using l(1) uint_rebase [of blkno "part_start_lba part"] unfolding b by (rule trans)
    moreover have "0 \<le> uint (part_start_lba part) + sint blkno"
    proof (rule ccontr)
      assume "\<not> 0 \<le> uint (part_start_lba part) + sint blkno"
      then have neg: "uint (part_start_lba part) + sint blkno < 0"
        by simp
      have "- (2 ^ 31) \<le> sint blkno"
        using sint_ge [of blkno] by simp
      then have lo: "- (2 ^ 31) \<le> uint (part_start_lba part) + sint blkno"
        using uint_ge_0 [of "part_start_lba part"] by linarith
      have "(uint (part_start_lba part) + sint blkno) mod 2 ^ 32
            = uint (part_start_lba part) + sint blkno + 2 ^ 32"
        using neg lo by (intro mod_negative_wrap) simp_all
      with m l lo have "2 ^ 31 \<le> sint blkno1"
        by simp
      with sint_lt [of blkno1] show False
        by simp
    qed
    ultimately show ?thesis
      using ATA_DEVICE_PARTITION by simp
  qed
  with i show ?thesis
    by blast
qed

lemma first_command_lba_example:
  "\<exists>rest. issued (final (hdd_read (ATA_DEVICE_PARTITION (mock_partition 2048 1000000)) 0
              131072 100 (mock_controller (answering 0x58) (answering 0) [])))
           = (2148, 128) # rest"
proof -
  let ?c = "mock_controller (answering 0x58) (answering 0) []"
  have n: "(131072 :: u32) div SECTOR_SIZE = 256"
    by (simp add: SECTOR_SIZE_def)
  have a: "adjust_blkno (ATA_DEVICE_PARTITION (mock_partition 2048 1000000)) 100
           = (mock_disk, 2148, 1000000)"
    by (simp add: mock_partition_def)
  have b: "\<not> ((2148 :: u32) <s 0 \<or> (1000000 :: u32) \<le> 2148 + 131072 div SECTOR_SIZE)"
    by (simp add: n word_le_nat_alt word_sless_alt)
  from first_command_lba [OF a b, of ?c 0]
  obtain lba rest where i: "issued (final (hdd_read (ATA_DEVICE_PARTITION
        (mock_partition 2048 1000000)) 0 131072 100 ?c))
      = (lba, transfer_size 256) # rest" and l: "uint lba = 2148"
    by (auto simp: mock_fields n mock_partition_def)
  from l have "lba = 2148"
    by (simp add: word_uint_eq_iff)
  with i show ?thesis
    by (auto simp: transfer_size_def BUFFER_LENGTH_IN_SECTORS_128)
qed

text \<open>
  C5. A read at block \<open>b\<close> of a partition with \<open>start_lba = S\<close> is to reach the hardware
  at LBA \<open>S + b\<close>. \<open>adjust_blkno\<close> adds \<open>S\<close> to the block number in a 32-bit \<open>int\<close> and
  nothing guards the sum (the code notes \<open>TODO: 64 bit irp->blkno?\<close>), so the code
  departs from this where \<open>S + b\<close> does not fit: in a partition starting at
  \<open>0xFFFFFFFF\<close> a read of one sector at block 1 passes the bounds check and is issued
  with lba 0, sector 0 of the disk, not \<open>0x100000000\<close>.
\<close>

theorem hdd_read_partition_rebase_overflow:
  "issued (final (hdd_read (ATA_DEVICE_PARTITION (mock_partition 0xFFFFFFFF 1000)) 0 512 1
      (mock_controller (answering 0x58) (answering 0) []))) = [(0, 1)]
   \<and> uint (0 :: u64) \<noteq> uint (0xFFFFFFFF :: u32) + sint (1 :: u32)"
  by (simp add: run_defs consts_defs mock_defs hdd_read_loop.simps)

text \<open>C4 as stated fails when the buffer cannot be mapped: a read of 512 bytes at block
  0 of a disk of 1000000 sectors passes the bounds check, returns \<open>EFAULT\<close> and has
  submitted nothing, where \<open>ceil ((512 / 512) / 128)\<close> is 1.\<close>

theorem hdd_read_chunking_counterexample:
  "hdd_read (ATA_DEVICE_WHOLEDISK mock_disk) 0 512 0
      (unmapped_controller (answering 0x58) (answering 0) [Irq])
     = Inr ((EFAULT, 512, []), unmapped_controller (answering 0x58) (answering 0) [Irq])
   \<and> \<not> (fst (snd (adjust_blkno (ATA_DEVICE_WHOLEDISK mock_disk) 0)) <s 0
          \<or> snd (snd (adjust_blkno (ATA_DEVICE_WHOLEDISK mock_disk) 0))
                \<le> fst (snd (adjust_blkno (ATA_DEVICE_WHOLEDISK mock_disk) 0)) + 512 div SECTOR_SIZE)
   \<and> issued (unmapped_controller (answering 0x58) (answering 0) [Irq]) = []
   \<and> (unat (512 :: u32) div 512 + 127) div 128 = 1"
  by (simp add: run_defs consts_defs mock_defs)

text \<open>C10 as stated fails when a chunk fails: a read of 1000 bytes that passes both checks
  on a disk that reports an error transfers nothing and sets \<open>*nbyte\<close> to 0, not 512.\<close>

theorem hdd_read_partial_sector_counterexample:
  "fst (projr (hdd_read (ATA_DEVICE_WHOLEDISK mock_disk) 0 1000 0
          (mock_controller failing_disk (answering 0) [Irq]))) = (EIO, 0, [])
   \<and> \<not> ((0 :: u32) <s 0
          \<or> ucast (addressable_sector_count mock_disk) \<le> (0 :: u32) + 1000 div SECTOR_SIZE)
   \<and> kmem_map (mock_controller failing_disk (answering 0) [Irq]) 0 1000
   \<and> (1000 :: nat) mod 512 \<noteq> 0
   \<and> (0 :: nat) \<noteq> 1000 div 512 * 512"
  by (simp add: run_defs consts_defs mock_defs hdd_read_loop.simps)

subsection \<open>Reads that fail\<close>

lemma sum_list_butlast_le:
  fixes f :: "'a \<Rightarrow> nat"
  shows "sum_list (map f (butlast xs)) \<le> sum_list (map f xs)"
  by (induction xs) auto

text \<open>
  C6, amended. A read that fails the bounds check returns EIO, and one whose buffer cannot
  be mapped returns EFAULT, both with \<open>*nbyte\<close> and the machine as the caller passed them.
  A read that fails after both checks returns EIO, has issued at least one command, and
  sets \<open>*nbyte\<close> to 512 times the sectors of the commands before the last one, the chunks
  that completed; that many bytes have been stored in the caller's buffer.
\<close>

theorem hdd_read_nbyte_on_failure:
  assumes "adjust_blkno dev blkno = (disk, blkno1, sector_limit)"
  shows "(blkno1 <s 0 \<or> sector_limit \<le> blkno1 + nbyte div SECTOR_SIZE
            \<longrightarrow> hdd_read dev buf nbyte blkno c = Inr ((EIO, nbyte, []), c))
    \<and> (\<not> (blkno1 <s 0 \<or> sector_limit \<le> blkno1 + nbyte div SECTOR_SIZE)
          \<and> \<not> kmem_map c buf nbyte
            \<longrightarrow> hdd_read dev buf nbyte blkno c = Inr ((EFAULT, nbyte, []), c))
    \<and> (\<not> (blkno1 <s 0 \<or> sector_limit \<le> blkno1 + nbyte div SECTOR_SIZE)
          \<and> kmem_map c buf nbyte
          \<and> hdd_read dev buf nbyte blkno c = Inr ((r, n1, data), c1) \<and> r \<noteq> 0
            \<longrightarrow> r = EIO
                \<and> (\<exists>chunks. issued c1 = issued c @ chunks \<and> chunks \<noteq> []
                      \<and> unat n1 = 512 * sum_list (map (unat \<circ> snd) (butlast chunks))
                      \<and> length data = unat n1))"
proof (intro conjI impI)
  assume "blkno1 <s 0 \<or> sector_limit \<le> blkno1 + nbyte div SECTOR_SIZE"
  then show "hdd_read dev buf nbyte blkno c = Inr ((EIO, nbyte, []), c)"
    by (simp add: hdd_read_unfold [OF assms])
next
  assume "\<not> (blkno1 <s 0 \<or> sector_limit \<le> blkno1 + nbyte div SECTOR_SIZE)
          \<and> \<not> kmem_map c buf nbyte"
  then show "hdd_read dev buf nbyte blkno c = Inr ((EFAULT, nbyte, []), c)"
    by (simp add: hdd_read_unfold [OF assms])
next
  assume h: "\<not> (blkno1 <s 0 \<or> sector_limit \<le> blkno1 + nbyte div SECTOR_SIZE)
          \<and> kmem_map c buf nbyte
          \<and> hdd_read dev buf nbyte blkno c = Inr ((r, n1, data), c1) \<and> r \<noteq> 0"
  then have "hdd_read_loop disk (nbyte div SECTOR_SIZE) blkno1 0 [] c = Inr ((r, n1, data), c1)"
    by (auto simp: hdd_read_unfold [OF assms])
  from hdd_read_loop_result [OF this] obtain chunks where
    "loop_outcome disk (nbyte div SECTOR_SIZE) 0 [] c r n1 data c1 chunks" ..
  with h have o: "issued c1 = issued c @ chunks" "r = EIO" "chunks \<noteq> []"
    "sum_list (map (unat \<circ> snd) chunks) \<le> unat nbyte div 512"
    "n1 = SECTOR_SIZE * of_nat (sum_list (map (unat \<circ> snd) (butlast chunks)))"
    "length data = 512 * sum_list (map (unat \<circ> snd) (butlast chunks))"
    by (auto simp: loop_outcome_def unat_sector_count)
  have "sum_list (map (unat \<circ> snd) (butlast chunks)) \<le> unat nbyte div 512"
    using sum_list_butlast_le [of "unat \<circ> snd" chunks] o(4) by simp
  then have "512 * sum_list (map (unat \<circ> snd) (butlast chunks)) \<le> unat nbyte"
    by simp
  also have "\<dots> < 2 ^ 32"
    using unsigned_less [of nbyte] by simp
  finally have "unat n1 = 512 * sum_list (map (unat \<circ> snd) (butlast chunks))"
    unfolding o(5) by (simp add: SECTOR_SIZE_def unat_word_ariths unat_of_nat)
  with o show "r = EIO" and "\<exists>chunks. issued c1 = issued c @ chunks \<and> chunks \<noteq> []
      \<and> unat n1 = 512 * sum_list (map (unat \<circ> snd) (butlast chunks))
      \<and> length data = unat n1"
    by auto
qed

lemma hdd_rw_signal:
  assumes "pending c = Signal # ws"
  shows "\<exists>c1. hdd_rw disk IO_READ Controller_buffer n blkno c = Inr (EINTR, c1)"
  using assms by (simp add: hdd_rw_read sched_sleep_def issue_read_fields)

theorem hdd_read_nbyte_on_failure_witness:
  "\<exists>n1 data c1.
     hdd_read (ATA_DEVICE_WHOLEDISK mock_disk) 0 131072 0
       (mock_controller (answering 0x58) (answering 0) [Irq, Signal]) = Inr ((EIO, n1, data), c1)
     \<and> unat n1 = 65536 \<and> length data = 65536"
proof -
  let ?c = "mock_controller (answering 0x58) (answering 0) [Irq, Signal]"
  have n: "(131072 :: u32) div SECTOR_SIZE = 256"
    by (simp add: SECTOR_SIZE_def)
  have t: "transfer_size 256 = 128" "transfer_size 128 = 128"
    by (simp_all add: transfer_size_def BUFFER_LENGTH_IN_SECTORS_128)
  have a: "adjust_blkno (ATA_DEVICE_WHOLEDISK mock_disk) 0 = (mock_disk, 0, 1000000)"
    by (simp add: mock_disk_def)
  have b: "\<not> ((0 :: u32) <s 0 \<or> (1000000 :: u32) \<le> 0 + 131072 div SECTOR_SIZE)"
    by (simp add: n word_le_nat_alt word_sless_alt)
  have "unat ((128 :: u32) * SECTOR_SIZE) \<le> length (buffer ?c)"
    by (simp add: mock_fields SECTOR_SIZE_def)
  from hdd_rw_healthy [OF healthy_mock _ this, of "[Signal]" mock_disk 0]
  obtain c0 where 1: "hdd_rw mock_disk IO_READ Controller_buffer 128 0 ?c = Inr (0, c0)"
    and p: "pending c0 = [Signal]"
    by (auto simp: mock_fields)
  from hdd_rw_signal [of c0 "[]" mock_disk 128 128] p
  obtain c1 where 2: "hdd_rw mock_disk IO_READ Controller_buffer 128 128 c0 = Inr (EINTR, c1)"
    by auto
  have "hdd_read_loop mock_disk 256 0 0 [] ?c
        = Inr ((EIO, SECTOR_SIZE * 128, take (unat (SECTOR_SIZE * 128 :: u32)) (buffer c0)), c1)"
    using 1 2
    by (subst hdd_read_loop_unfold, simp add: t, subst hdd_read_loop_unfold)
       (simp add: t EINTR_def)
  then have r: "hdd_read (ATA_DEVICE_WHOLEDISK mock_disk) 0 131072 0 ?c
        = Inr ((EIO, SECTOR_SIZE * 128, take (unat (SECTOR_SIZE * 128 :: u32)) (buffer c0)), c1)"
    using b by (simp add: hdd_read_unfold [OF a] mock_fields n)
  have prem: "\<not> ((0 :: u32) <s 0 \<or> (1000000 :: u32) \<le> 0 + 131072 div SECTOR_SIZE)
      \<and> kmem_map ?c 0 131072
      \<and> hdd_read (ATA_DEVICE_WHOLEDISK mock_disk) 0 131072 0 ?c
          = Inr ((EIO, SECTOR_SIZE * 128, take (unat (SECTOR_SIZE * 128 :: u32)) (buffer c0)), c1)
      \<and> EIO \<noteq> 0"
    using b r by (simp add: mock_fields EIO_def)
  from hdd_read_nbyte_on_failure [OF a, THEN conjunct2, THEN conjunct2, THEN mp, OF prem]
  have "length (take (unat (SECTOR_SIZE * 128 :: u32)) (buffer c0)) = unat (SECTOR_SIZE * 128 :: u32)"
    by blast
  moreover have "unat (SECTOR_SIZE * 128 :: u32) = 65536"
    by (simp add: SECTOR_SIZE_def)
  ultimately show ?thesis
    using r by simp
qed

text \<open>C6 as stated fails at the bounds check: \<open>*nbyte\<close> stays 512 there, it is not set to
  the zero bytes transferred.\<close>

theorem hdd_read_nbyte_counterexample:
  "hdd_read (ATA_DEVICE_WHOLEDISK mock_disk) 0 512 1000000
     (mock_controller (answering 0x58) (answering 0) [Irq])
   = Inr ((EIO, 512, []), mock_controller (answering 0x58) (answering 0) [Irq])
   \<and> (512 :: u32) \<noteq> 0"
  by (simp add: run_defs consts_defs mock_disk_def)

subsection \<open>The bounds check\<close>

lemma wholedisk_check:
  assumes "unat (limit :: u64) < 2 ^ 32"
  shows "(blkno <s 0 \<or> (ucast limit :: u32) \<le> blkno + nbyte div SECTOR_SIZE)
     \<longleftrightarrow> (sint blkno < 0 \<or> uint limit \<le> sint blkno + int (unat nbyte div 512))"
proof (cases "blkno <s 0")
  case True
  then have "sint blkno < 0"
    unfolding word_sless_alt by simp
  with True show ?thesis
    by blast
next
  case False
  then have nn: "\<not> sint blkno < 0"
    unfolding word_sless_alt by simp
  have s: "sint blkno = int (unat blkno)"
    using uint_scast_nonneg(2) [OF False] by (simp only: uint_nat)
  have "sint blkno < 2 ^ 31"
    using sint_lt [of blkno] by simp
  with s have "int (unat blkno) < 2 ^ 31"
    by (simp only:)
  then have b: "unat blkno < 2 ^ 31"
    by (simp only: of_nat_less_numeral_power_cancel_iff)
  have "unat nbyte < 2 ^ 32"
    using unsigned_less [of nbyte] by simp
  then have m: "unat nbyte div 512 < 2 ^ 23"
    by simp
  from b m have "unat blkno + unat nbyte div 512 < 2 ^ 32"
    by simp
  then have sum: "unat (blkno + nbyte div SECTOR_SIZE) = unat blkno + unat nbyte div 512"
    by (simp add: unat_add_lem [THEN iffD1] unat_sector_count)
  have lim: "unat (ucast limit :: u32) = unat limit"
    using assms by (simp add: unsigned_ucast_eq take_bit_nat_eq_self_iff)
  have "(ucast limit :: u32) \<le> blkno + nbyte div SECTOR_SIZE
        \<longleftrightarrow> unat limit \<le> unat blkno + unat nbyte div 512"
    unfolding word_le_nat_alt sum lim ..
  also have "\<dots> \<longleftrightarrow> int (unat limit) \<le> int (unat blkno) + int (unat nbyte div 512)"
    unfolding of_nat_add [symmetric] of_nat_le_iff ..
  also have "\<dots> \<longleftrightarrow> uint limit \<le> sint blkno + int (unat nbyte div 512)"
    unfolding s by (simp only: uint_nat)
  finally show ?thesis
    using False nn by blast
qed

text \<open>
  C1, amended. For a whole disk whose sector count fits the 32-bit \<open>size_t\<close> limit: if
  \<open>blkno < 0\<close> or \<open>blkno + nbyte / 512 >= addressable_sector_count\<close>, the read returns EIO
  at once, with \<open>*nbyte\<close> and the machine unchanged; and a read within the bounds that
  returns EIO has mapped the buffer and ends in an \<open>hdd_rw\<close> that returned an error.
\<close>

theorem hdd_read_bounds:
  assumes "unat (addressable_sector_count wholedisk) < 2 ^ 32"
  shows "(sint blkno < 0
          \<or> uint (addressable_sector_count wholedisk) \<le> sint blkno + int (unat nbyte div 512)
            \<longrightarrow> hdd_read (ATA_DEVICE_WHOLEDISK wholedisk) buf nbyte blkno c
                = Inr ((EIO, nbyte, []), c))
    \<and> (\<not> (sint blkno < 0
            \<or> uint (addressable_sector_count wholedisk) \<le> sint blkno + int (unat nbyte div 512))
        \<and> hdd_read (ATA_DEVICE_WHOLEDISK wholedisk) buf nbyte blkno c = Inr ((EIO, n1, data), c1)
            \<longrightarrow> kmem_map c buf nbyte
                \<and> (\<exists>n b c0 err. hdd_rw wholedisk IO_READ Controller_buffer n b c0 = Inr (err, c1)
                                 \<and> err \<noteq> 0))"
proof -
  have a: "adjust_blkno (ATA_DEVICE_WHOLEDISK wholedisk) blkno
           = (wholedisk, blkno, ucast (addressable_sector_count wholedisk))"
    by simp
  note u = hdd_read_unfold [OF a] and w = wholedisk_check [OF assms, of blkno nbyte]
  show ?thesis
  proof (intro conjI impI)
    assume "sint blkno < 0
            \<or> uint (addressable_sector_count wholedisk) \<le> sint blkno + int (unat nbyte div 512)"
    with w show "hdd_read (ATA_DEVICE_WHOLEDISK wholedisk) buf nbyte blkno c
                 = Inr ((EIO, nbyte, []), c)"
      unfolding u by simp
  next
    assume h: "\<not> (sint blkno < 0
            \<or> uint (addressable_sector_count wholedisk) \<le> sint blkno + int (unat nbyte div 512))
        \<and> hdd_read (ATA_DEVICE_WHOLEDISK wholedisk) buf nbyte blkno c = Inr ((EIO, n1, data), c1)"
    with w have ok: "\<not> (blkno <s 0 \<or> ucast (addressable_sector_count wholedisk)
                            \<le> blkno + nbyte div SECTOR_SIZE)"
      by simp
    from h ok show k: "kmem_map c buf nbyte"
      unfolding u by (auto simp: EIO_def EFAULT_def split: if_splits)
    from h ok k have "hdd_read_loop wholedisk (nbyte div SECTOR_SIZE) blkno 0 [] c
                      = Inr ((EIO, n1, data), c1)"
      unfolding u by (auto split: if_splits)
    from hdd_read_loop_result [OF this] obtain chunks where
      "loop_outcome wholedisk (nbyte div SECTOR_SIZE) 0 [] c EIO n1 data c1 chunks" ..
    then show "\<exists>n b c0 err. hdd_rw wholedisk IO_READ Controller_buffer n b c0 = Inr (err, c1)
                 \<and> err \<noteq> 0"
      by (simp add: loop_outcome_def EIO_def)
  qed
qed

theorem hdd_read_bounds_witness:
  "unat (addressable_sector_count mock_disk) < 2 ^ 32
   \<and> hdd_read (ATA_DEVICE_WHOLEDISK mock_disk) 0 512 999999
        (mock_controller (answering 0x58) (answering 0) [Irq])
      = Inr ((EIO, 512, []), mock_controller (answering 0x58) (answering 0) [Irq])
   \<and> hdd_read (ATA_DEVICE_WHOLEDISK mock_disk) 0 512 (- 1)
        (mock_controller (answering 0x58) (answering 0) [Irq])
      = Inr ((EIO, 512, []), mock_controller (answering 0x58) (answering 0) [Irq])"
proof -
  have a: "unat (addressable_sector_count mock_disk) < 2 ^ 32"
    by (simp add: mock_disk_def)
  from hdd_read_bounds [OF a, of 999999 512 0, THEN conjunct1]
    hdd_read_bounds [OF a, of "- 1" 512 0, THEN conjunct1]
  show ?thesis
    using a by (simp add: mock_disk_def)
qed

text \<open>C1 as stated fails in its "only if": a read within the bounds returns EIO when the
  disk reports an error.\<close>

theorem hdd_read_bounds_counterexample:
  "fst (fst (projr (hdd_read (ATA_DEVICE_WHOLEDISK mock_disk) 0 1024 10
          (mock_controller failing_disk (answering 0) [Irq])))) = EIO
   \<and> \<not> (sint (10 :: u32) < 0
          \<or> uint (addressable_sector_count mock_disk) \<le> sint (10 :: u32) + 1024 div 512)"
  by (simp add: run_defs consts_defs mock_defs hdd_read_loop.simps)

text \<open>For a partition the check compares the block number after the partition's start
  has been added with the partition's own sector count: block 0 of a partition of 1000
  sectors starting at sector 2048 is refused.\<close>

lemma partition_bounds_slip:
  "hdd_read (ATA_DEVICE_PARTITION (mock_partition 2048 1000)) 0 512 0
     (mock_controller (answering 0x58) (answering 0) [Irq])
   = Inr ((EIO, 512, []), mock_controller (answering 0x58) (answering 0) [Irq])
   \<and> \<not> (sint (0 :: u32) < 0 \<or> uint (1000 :: u32) \<le> sint (0 :: u32) + 512 div 512)"
  by (simp add: run_defs consts_defs mock_partition_def)

subsection \<open>Little-endian loads\<close>

lemma ucast_or_push_bit_8:
  fixes b :: u8 and w :: "'a::len word"
  shows "ucast b OR push_bit 8 w = ucast b + push_bit 8 w"
proof -
  have "(ucast b :: 'a word) AND push_bit 8 w = 0"
    by (rule bit_eqI) (auto simp: bit_and_iff bit_ucast_iff bit_push_bit_iff dest: bit_imp_le_length)
  then show ?thesis
    by (rule disjunctive_add_eq_or [symmetric])
qed

lemma load_native_little:
  "(load_native Little_endian bytes :: 'a::len word) = of_nat (le_nat bytes)"
proof -
  have "foldr (\<lambda>b acc. ucast b OR push_bit 8 acc) bytes (0 :: 'a word) = of_nat (le_nat bytes)"
  proof (induction bytes)
    case Nil
    show ?case
      by (simp add: le_nat_def)
  next
    case (Cons b bytes)
    have "ucast b OR push_bit 8 (of_nat (le_nat bytes) :: 'a word)
          = of_nat (unat b + 256 * le_nat bytes)"
      unfolding ucast_or_push_bit_8 by (simp add: push_bit_eq_mult)
    with Cons show ?case
      by (simp add: le_nat_def)
  qed
  then show ?thesis
    by (simp add: load_native_def)
qed

lemma le_nat_bound: "le_nat bytes < 256 ^ length bytes"
proof (induction bytes)
  case Nil
  show ?case
    by (simp add: le_nat_def)
next
  case (Cons b bytes)
  have "unat b < 256"
    using unsigned_less [of b] by simp
  moreover from Cons have "le_nat bytes + 1 \<le> 256 ^ length bytes"
    by simp
  then have "256 * (le_nat bytes + 1) \<le> 256 * 256 ^ length bytes"
    by (rule mult_le_mono2)
  ultimately show ?case
    by (simp add: le_nat_def)
qed

lemma unat_of_le_nat_32:
  assumes "length bytes \<le> 4"
  shows "unat (of_nat (le_nat bytes) :: u32) = le_nat bytes"
proof -
  have "le_nat bytes < 256 ^ length bytes"
    by (rule le_nat_bound)
  also have "\<dots> \<le> (256 :: nat) ^ 4"
    using assms by (intro power_increasing) simp_all
  finally show ?thesis
    by (simp add: unat_of_nat)
qed

lemma unat_of_le_nat_64:
  assumes "length bytes \<le> 8"
  shows "unat (of_nat (le_nat bytes) :: u64) = le_nat bytes"
proof -
  have "le_nat bytes < 256 ^ length bytes"
    by (rule le_nat_bound)
  also have "\<dots> \<le> (256 :: nat) ^ 8"
    using assms by (intro power_increasing) simp_all
  finally show ?thesis
    by (simp add: unat_of_nat)
qed

lemma unat_of_le_nat_16:
  assumes "length bytes \<le> 2"
  shows "unat (of_nat (le_nat bytes) :: u16) = le_nat bytes"
proof -
  have "le_nat bytes < 256 ^ length bytes"
    by (rule le_nat_bound)
  also have "\<dots> \<le> (256 :: nat) ^ 2"
    using assms by (intro power_increasing) simp_all
  finally show ?thesis
    by (simp add: unat_of_nat)
qed

lemma le_nat_simps:
  "le_nat [] = 0" "le_nat (b # bs) = unat b + 256 * le_nat bs" "le_nat (replicate n 0) = 0"
  by (induction n) (simp_all add: le_nat_def)

subsection \<open>Reading during setup\<close>

lemma hdd_setup_io_read:
  "\<exists>c1. hdd_setup_io disk IO_READ lba n c = Inr ((), c1)
        \<and> c1 = c\<lparr>trace := trace c1, active_disk := active_disk c1, issued := issued c1\<rparr>
        \<and> data_reads (trace c1) = data_reads (trace c)"
  by (simp add: hdd_setup_io_def Let_def ata_write_def bus_write_8_def data_reads_def)

lemma read_during_setup_frame:
  assumes "read_during_setup disk lba n c = Inr ((r, bytes), c1)"
  shows "c1 = c\<lparr>trace := trace c1, active_disk := active_disk c1, issued := issued c1\<rparr>"
    and "r = 0 \<Longrightarrow> length bytes = unat (n * SECTOR_SIZE)"
proof -
  obtain c0 where s: "hdd_setup_io disk IO_READ lba n c = Inr ((), c0)"
    and f0: "c0 = c\<lparr>trace := trace c0, active_disk := active_disk c0, issued := issued c0\<rparr>"
    using hdd_setup_io_read [of disk lba n c] by blast
  obtain status c2 where a: "ata_read (channel disk) ATA_REG_COMMAND_STATUS
      (ata_wait (channel disk) c0) = (status, c2)"
    by (cases "ata_read (channel disk) ATA_REG_COMMAND_STATUS (ata_wait (channel disk) c0)")
  have "only_io (ata_wait (channel disk) c0) c2"
    using ata_read_io [of "ata_wait (channel disk) c0" "channel disk" ATA_REG_COMMAND_STATUS] a
    by simp
  with ata_wait_io have io2: "only_io c0 c2"
    by (rule only_io_trans)
  have io1: "only_io c0 c1 \<and> (r = 0 \<longrightarrow> length bytes = unat (n * SECTOR_SIZE))"
  proof (cases "ucast status AND (ATA_STATUS_FLAG_ERROR OR ATA_STATUS_FLAG_DEVICE_FAILURE)
                  = (0 :: u32)")
    case True
    with assms s a obtain
      p: "ata_pio_read (channel disk) (n * SECTOR_SIZE) c2 = Inr (bytes, c1)"
      by (auto simp: read_during_setup_def split: sum.splits)
    from ata_pio_read_io [of c2 "channel disk" "n * SECTOR_SIZE"] p io2
    have "only_io c0 c1"
      by (auto intro: only_io_trans)
    with ata_pio_read_length [OF p] show ?thesis
      by simp
  next
    case False
    with assms s a have "c1 = snd (ata_read (channel disk) ATA_REG_ERR c2)" and "r = EIO"
      by (auto simp: read_during_setup_def)
    with io2 ata_read_io [of c2 "channel disk" ATA_REG_ERR] show ?thesis
      by (auto intro: only_io_trans simp: EIO_def)
  qed
  then have "c1 = c0\<lparr>trace := trace c1\<rparr>"
    by (simp add: only_io_def)
  with f0 show "c1 = c\<lparr>trace := trace c1, active_disk := active_disk c1, issued := issued c1\<rparr>"
    by (cases c; cases c0; cases c1) simp
  from io1 show "r = 0 \<Longrightarrow> length bytes = unat (n * SECTOR_SIZE)"
    by simp
qed

lemma read_during_setup_returns:
  "\<exists>r bytes c1. read_during_setup disk lba n c = Inr ((r, bytes), c1)"
proof -
  obtain c0 where s: "hdd_setup_io disk IO_READ lba n c = Inr ((), c0)"
    using hdd_setup_io_read [of disk lba n c] by blast
  obtain status c2 where a: "ata_read (channel disk) ATA_REG_COMMAND_STATUS
      (ata_wait (channel disk) c0) = (status, c2)"
    by (cases "ata_read (channel disk) ATA_REG_COMMAND_STATUS (ata_wait (channel disk) c0)")
  from ata_pio_read_loop_returns [OF sectors_and_3, of "channel disk" n "[]" c2]
  obtain bytes c3 where "ata_pio_read (channel disk) (n * SECTOR_SIZE) c2 = Inr (bytes, c3)"
    by (auto simp: ata_pio_read_def sectors_and_3)
  with s a show ?thesis
    by (simp add: read_during_setup_def)
qed

subsection \<open>The partition scanner\<close>

lemma partition_devname_slot:
  assumes "k < 4" and "length name \<le> 8"
  shows "partition_devname name (int k) = Some (name @ ''p'' @ two_digits k)"
proof -
  from assms(1) have "k = 0 \<or> k = 1 \<or> k = 2 \<or> k = 3"
    by auto
  then have "[char_of (of_char CHR ''0'' + int k div 10), char_of (of_char CHR ''0'' + int k mod 10)]
             = two_digits k"
    by (auto simp: two_digits_def char_of_def)
  with assms(2) show ?thesis
    by (simp add: partition_devname_def strlcpy_def strnlen_def MAXDEVNAME_def Let_def)
qed

lemma setup_partitions_loop_step:
  assumes "k < 4" and "length (devname disk) \<le> 8" and "length sector0 = 512"
  shows "setup_partitions_loop Little_endian disk sector0 (int k) c
         = setup_partitions_loop Little_endian disk sector0 (int k + 1)
             (if slot_retained sector0 k then add_partition (slot_partition disk sector0 k) c
              else c)"
proof -
  define sid where "sid = slot_system_id sector0 k"
  define st :: u32 where "st = of_nat (slot_start_lba sector0 k)"
  define ct :: u32 where "ct = of_nat (slot_sector_count sector0 k)"
  have f: "drop (446 + k * 16) sector0 ! 4 = sid"
    "load_native Little_endian (take 4 (drop (454 + k * 16) sector0)) = st"
    "load_native Little_endian (take 4 (drop (458 + k * 16) sector0)) = ct"
    using assms(1,3)
    by (simp_all add: sid_def st_def ct_def load_native_little slot_system_id_def
        slot_start_lba_def slot_sector_count_def ac_simps)
  have z: "st = 0 \<longleftrightarrow> slot_start_lba sector0 k = 0" "ct = 0 \<longleftrightarrow> slot_sector_count sector0 k = 0"
    using unat_of_le_nat_32 [of "take 4 (drop (0x1BE + 16 * k + 8) sector0)"]
      unat_of_le_nat_32 [of "take 4 (drop (0x1BE + 16 * k + 12) sector0)"]
    by (auto simp: st_def ct_def slot_start_lba_def slot_sector_count_def unat_eq_0 [symmetric])
  have r: "slot_retained sector0 k \<longleftrightarrow> \<not> (st = 0 \<or> ct = 0 \<or> sid = 0)"
    by (simp add: slot_retained_def z sid_def)
  have a: "add_partition (slot_partition disk sector0 k) c
           = device_create (devname disk @ ''p'' @ two_digits k)
               (ATA_DEVICE_PARTITION
                  \<lparr>part_disk = disk, part_system_id = sid, part_start_lba = st,
                     part_sector_count = ct, part_devname = devname disk @ ''p'' @ two_digits k\<rparr>)
               (c\<lparr>partition_list := partition_list c @
                  [\<lparr>part_disk = disk, part_system_id = sid, part_start_lba = st,
                     part_sector_count = ct, part_devname = devname disk @ ''p'' @ two_digits k\<rparr>]\<rparr>)"
    by (simp add: add_partition_def slot_partition_def device_create_def sid_def st_def ct_def)
  from assms(1) show ?thesis
    unfolding r a
    by (subst setup_partitions_loop.simps)
       (simp add: f Let_def partition_devname_slot [OF assms(1,2)])
qed

lemma setup_partitions_loop_end:
  "setup_partitions_loop bo disk sector0 4 c = Inr ((), c)"
  by (subst setup_partitions_loop.simps) simp

lemma setup_partitions_loop_all:
  assumes "length (devname disk) \<le> 8" and "length sector0 = 512"
  shows "setup_partitions_loop Little_endian disk sector0 0 c
         = Inr ((), foldl (\<lambda>c part. add_partition part c) c
                      (map (slot_partition disk sector0)
                         (filter (slot_retained sector0) [0, 1, 2, 3])))"
  using setup_partitions_loop_step [OF _ assms, of 0]
    setup_partitions_loop_step [OF _ assms, of 1]
    setup_partitions_loop_step [OF _ assms, of 2]
    setup_partitions_loop_step [OF _ assms, of 3]
  by (simp add: setup_partitions_loop_end)

lemma foldl_add_partitions:
  "foldl (\<lambda>c part. add_partition part c) c parts = add_partitions parts c"
  by (induction parts arbitrary: c) (simp_all add: add_partition_def add_partitions_def)

lemma setup_partitions_result:
  assumes "read_during_setup disk 0 1 c = Inr ((r, sector0), c1)"
    and "length (devname disk) \<le> 8"
  shows "setup_partitions Little_endian disk c
         = Inr ((), add_partitions (if r = 0 then mbr_partitions disk sector0 else []) c1)"
proof (cases "r = 0")
  case True
  with read_during_setup_frame(2) [OF assms(1)] have l: "length sector0 = 512"
    by (simp add: SECTOR_SIZE_def)
  have "(0xaa55 :: u16) = load_native Little_endian (take 2 (drop 510 sector0))
        \<longleftrightarrow> le_nat (take 2 (drop 510 sector0)) = 0xAA55"
    using unat_of_le_nat_16 [of "take 2 (drop 510 sector0)"]
    by (auto simp: load_native_little)
  with True assms(1) show ?thesis
    by (simp add: setup_partitions_def SECTOR_SIZE_def mbr_partitions_def
        setup_partitions_loop_all [OF assms(2) l] foldl_add_partitions add_partitions_def)
next
  case False
  with assms(1) show ?thesis
    by (simp add: setup_partitions_def add_partitions_def)
qed

lemma setup_partitions_frame:
  assumes "setup_partitions Little_endian disk c = Inr (u, c1)"
    and "length (devname disk) \<le> 8"
  shows "disk_list c1 = disk_list c" and "\<exists>rest. devices c1 = devices c @ rest"
proof -
  obtain r sector0 c0 where r: "read_during_setup disk 0 1 c = Inr ((r, sector0), c0)"
    using read_during_setup_returns by blast
  from read_during_setup_frame(1) [OF r]
  have "disk_list c0 = disk_list c" "devices c0 = devices c"
    by (cases c; cases c0; simp)+
  with assms(1) show "disk_list c1 = disk_list c" and "\<exists>rest. devices c1 = devices c @ rest"
    unfolding setup_partitions_result [OF r assms(2)] by (auto simp: add_partitions_def)
qed

text \<open>
  C8. The driver addresses the PC's IDE controllers through I/O port space, so its loads
  through cast pointers are little-endian (\<open>Little_endian\<close> below). For a disk whose name
  leaves room for the suffix in \<open>devname[MAXDEVNAME]\<close> (at most 8 characters; the names
  \<open>setup_disk\<close> gives have 5, see \<open>setup_disk_added\<close>), and for every buffer
  \<open>sector0\<close> that the read of LBA 0 returns, \<open>setup_partitions\<close> returns having added
  exactly \<open>mbr_partitions disk sector0\<close>, each also registered as a device: no partition unless the 16-bit little-endian value at offset 510 is \<open>0xAA55\<close>;
  otherwise, of the four 16-byte entries at \<open>0x1BE\<close>, \<open>0x1CE\<close>, \<open>0x1DE\<close> and \<open>0x1EE\<close>,
  those whose \<open>start_lba\<close>, \<open>sector_count\<close> and \<open>system_id\<close> are all nonzero, in slot
  order, the one in slot \<open>k\<close> named with the disk's name followed by \<open>p\<close> and the two
  decimal digits of \<open>k\<close>. Nothing else changes of the machine the read left.
\<close>

theorem setup_partitions_mbr:
  assumes "read_during_setup disk 0 1 c = Inr ((0, sector0), c1)"
    and "length (devname disk) \<le> 8"
  shows "setup_partitions Little_endian disk c
         = Inr ((), add_partitions (mbr_partitions disk sector0) c1)"
  using setup_partitions_result [OF assms] by simp

subsection \<open>Identifying a disk\<close>

lemma status_error_bit:
  "(ucast (status :: u8) :: u32) AND ATA_STATUS_FLAG_ERROR \<noteq> 0 \<longleftrightarrow> bit status 0"
proof -
  have "(ucast status :: u32) AND 1 = ucast (status AND 1)"
    by (simp add: unsigned_and_eq)
  then have "(ucast status :: u32) AND 1 = 0 \<longleftrightarrow> status AND 1 = 0"
    by (simp add: ucast_status_eq_0)
  also have "\<dots> \<longleftrightarrow> \<not> bit status 0"
    by (simp add: and_one_eq bit_0 even_iff_mod_2_eq_zero)
  finally show ?thesis
    by (simp add: ATA_STATUS_FLAG_ERROR_def)
qed

lemma only_io_ata_write: "only_io c c1 \<Longrightarrow> only_io c (ata_write channelnum reg val c1)"
  using ata_write_io by (rule only_io_trans [rotated])

lemma only_io_ata_delay400: "only_io c c1 \<Longrightarrow> only_io c (ata_delay400 channelnum c1)"
  using ata_delay400_io by (rule only_io_trans [rotated])

lemma only_io_ata_wait: "only_io c c1 \<Longrightarrow> only_io c (ata_wait channelnum c1)"
  using ata_wait_io by (rule only_io_trans [rotated])

lemma only_io_ata_read: "only_io c c1 \<Longrightarrow> only_io c (snd (ata_read channelnum reg c1))"
  using ata_read_io by (rule only_io_trans [rotated])

lemma only_io_read_altstatus: "only_io c c1 \<Longrightarrow> only_io c (snd (read_altstatus channelnum c1))"
  using read_altstatus_io by (rule only_io_trans [rotated])

lemmas only_io_intros = only_io_ata_write only_io_ata_delay400 only_io_ata_wait
  only_io_ata_read only_io_read_altstatus only_io_refl

lemma fixup_string_endianness_even:
  "even (length xs) \<Longrightarrow> \<exists>swapped. fixup_string_endianness xs = Some swapped"
  by (induction xs rule: fixup_string_endianness.induct) auto

lemma setup_disk_added:
  assumes "setup_disk bo disknum c = Inr (0, c1)"
  shows "\<exists>c5 ids c6 d.
           only_io c c5 \<and> ata_pio_read (channel d) 512 c5 = Inr (ids, c6)
           \<and> identification_space d = ids
           \<and> addressable_sector_count d
               = (if (load_native bo (take 4 (drop 120 ids)) :: u32) = 0x0fffffff
                  then load_native bo (take 8 (drop 200 ids))
                  else ucast (load_native bo (take 4 (drop 120 ids)) :: u32))
           \<and> length (devname d) \<le> 5
           \<and> setup_partitions bo d
                (device_create (devname d) (ATA_DEVICE_WHOLEDISK d)
                   (c6\<lparr>disk_list := disk_list c6 @ [d]\<rparr>)) = Inr ((), c1)"
proof -
  define ch where "ch = (if drop_bit 1 disknum = 0 then Primary else Secondary)"
  define c3 where "c3 = ata_delay400 ch (ata_write ch ATA_REG_COMMAND_STATUS 0xEC
      (ata_write ch ATA_REG_LBA_HIGH 0 (ata_write ch ATA_REG_LBA_MID 0
        (ata_write ch ATA_REG_LBA_LOW 0 (ata_write ch ATA_REG_SECTOR_COUNT 0
          (ata_delay400 ch (ata_write ch ATA_REG_DISK_SELECT
             (ucast (0xA0 OR push_bit 4 (disknum AND 1))) c)))))))"
  obtain accepted c4 where a: "ata_read ch ATA_REG_COMMAND_STATUS c3 = (accepted, c4)"
    by (cases "ata_read ch ATA_REG_COMMAND_STATUS c3")
  obtain status c5 where s: "read_altstatus ch (ata_wait ch c4) = (status, c5)"
    by (cases "read_altstatus ch (ata_wait ch c4)")
  have "only_io c (snd (read_altstatus ch (ata_wait ch (snd (ata_read ch ATA_REG_COMMAND_STATUS c3)))))"
    unfolding c3_def by (intro only_io_intros)
  with a s have io: "only_io c c5"
    by simp
  define mk where "mk = (\<lambda>ids (c6 :: machine) serial firmware model_name.
      \<lparr>channel = ch, slave = disknum AND 1, identification_space = ids,
         serial_number = serial, firmware_revision = firmware, model = model_name,
         lba_supported = True, dma_supported = True,
         sector_capacity = load_native bo (take 4 (drop 114 ids)),
         addressable_sector_count =
           (if (load_native bo (take 4 (drop 120 ids)) :: u32) = 0x0fffffff
            then load_native bo (take 8 (drop 200 ids))
            else ucast (load_native bo (take 4 (drop 120 ids)) :: u32)),
         devname = take 3 (controller_devname c6)
            @ [CHR ''d'', char_of (of_char CHR ''0'' + unat disknum)]\<rparr>)"
  from assms have "\<exists>ids c6 serial firmware model_name.
      ata_pio_read ch 512 c5 = Inr (ids, c6)
      \<and> setup_partitions bo (mk ids c6 serial firmware model_name)
           (device_create (devname (mk ids c6 serial firmware model_name))
              (ATA_DEVICE_WHOLEDISK (mk ids c6 serial firmware model_name))
              (c6\<lparr>disk_list := disk_list c6 @ [mk ids c6 serial firmware model_name]\<rparr>))
         = Inr ((), c1)"
    unfolding setup_disk_def Let_def ch_def [symmetric] c3_def [symmetric] mk_def
    by (auto simp: a s split: if_splits sum.splits option.splits prod.splits)
  then obtain ids c6 serial firmware model_name where
    p: "ata_pio_read ch 512 c5 = Inr (ids, c6)"
    and sp: "setup_partitions bo (mk ids c6 serial firmware model_name)
           (device_create (devname (mk ids c6 serial firmware model_name))
              (ATA_DEVICE_WHOLEDISK (mk ids c6 serial firmware model_name))
              (c6\<lparr>disk_list := disk_list c6 @ [mk ids c6 serial firmware model_name]\<rparr>))
         = Inr ((), c1)"
    by blast
  let ?d = "mk ids c6 serial firmware model_name"
  have "channel ?d = ch" "identification_space ?d = ids"
    "addressable_sector_count ?d
       = (if (load_native bo (take 4 (drop 120 ids)) :: u32) = 0x0fffffff
          then load_native bo (take 8 (drop 200 ids))
          else ucast (load_native bo (take 4 (drop 120 ids)) :: u32))"
    "length (devname ?d) \<le> 5"
    by (simp_all add: mk_def)
  with io p sp show ?thesis
    by (intro exI [of _ c5] exI [of _ ids] exI [of _ c6] exI [of _ ?d]) simp
qed

text \<open>
  C7. On the PC, where \<open>memcpy\<close> into an integer reads little-endian
  (\<open>Little_endian\<close> below), when \<open>setup_disk\<close> returns 0 it has added one disk
  \<open>d\<close> to the controller's list and registered it as a whole-disk device under its
  name; the identification space of \<open>d\<close> is the 512 bytes read from the data port after
  IDENTIFY; and \<open>addressable_sector_count\<close> is the 64-bit little-endian value at bytes
  200..207 of it if the 32-bit little-endian lba28 count at bytes 120..123 equals
  \<open>0x0FFFFFFF\<close>, and that lba28 count otherwise.
\<close>

theorem setup_disk_sector_count:
  assumes "setup_disk Little_endian disknum c = Inr (0, c1)"
  shows "\<exists>d c5 c6. disk_list c1 = disk_list c @ [d]
           \<and> only_io c c5
           \<and> ata_pio_read (channel d) 512 c5 = Inr (identification_space d, c6)
           \<and> unat (addressable_sector_count d)
               = (if le_nat (take 4 (drop 120 (identification_space d))) = 0x0FFFFFFF
                  then le_nat (take 8 (drop 200 (identification_space d)))
                  else le_nat (take 4 (drop 120 (identification_space d))))
           \<and> (\<exists>rest. devices c1 = devices c @ (devname d, ATA_DEVICE_WHOLEDISK d) # rest)"
proof -
  from setup_disk_added [OF assms] obtain c5 ids c6 d where
    io: "only_io c c5" and p: "ata_pio_read (channel d) 512 c5 = Inr (ids, c6)"
    and i: "identification_space d = ids"
    and n: "addressable_sector_count d
            = (if (load_native Little_endian (take 4 (drop 120 ids)) :: u32) = 0x0fffffff
               then load_native Little_endian (take 8 (drop 200 ids))
               else ucast (load_native Little_endian (take 4 (drop 120 ids)) :: u32))"
    and l: "length (devname d) \<le> 5"
    and sp: "setup_partitions Little_endian d
               (device_create (devname d) (ATA_DEVICE_WHOLEDISK d)
                  (c6\<lparr>disk_list := disk_list c6 @ [d]\<rparr>)) = Inr ((), c1)"
    by blast
  from ata_pio_read_io [of c5 "channel d" 512] p have "only_io c5 c6"
    by simp
  with io have io6: "only_io c c6"
    by (rule only_io_trans)
  from l have l8: "length (devname d) \<le> 8"
    by simp
  from setup_partitions_frame [OF sp l8] only_io_fields(5,13) [OF io6]
  have dl: "disk_list c1 = disk_list c @ [d]"
    and dv: "\<exists>rest. devices c1 = devices c @ (devname d, ATA_DEVICE_WHOLEDISK d) # rest"
    by (auto simp: device_create_def)
  have u28: "unat (load_native Little_endian (take 4 (drop 120 ids)) :: u32)
             = le_nat (take 4 (drop 120 ids))"
    by (simp add: load_native_little unat_of_le_nat_32)
  have u48: "unat (load_native Little_endian (take 8 (drop 200 ids)) :: u64)
             = le_nat (take 8 (drop 200 ids))"
    by (simp add: load_native_little unat_of_le_nat_64)
  have c28: "(load_native Little_endian (take 4 (drop 120 ids)) :: u32) = 0x0fffffff
             \<longleftrightarrow> le_nat (take 4 (drop 120 ids)) = 0x0FFFFFFF"
    unfolding u28 [symmetric] by (simp add: word_unat_eq_iff)
  have uc: "unat (ucast w :: u64) = unat w" for w :: u32
  proof -
    have "unat w < 2 ^ 32"
      using unsigned_less [of w] by simp
    then have "unat w < 2 ^ 64"
      by (rule less_trans) simp
    then show ?thesis
      by (simp add: unsigned_ucast_eq take_bit_nat_eq_self)
  qed
  have "unat (addressable_sector_count d)
        = (if le_nat (take 4 (drop 120 ids)) = 0x0FFFFFFF
           then le_nat (take 8 (drop 200 ids)) else le_nat (take 4 (drop 120 ids)))"
    unfolding n c28 using u28 u48 by (simp add: uc)
  with dl dv io p i show ?thesis
    by blast
qed

subsection \<open>Hardware that hands out a disk image\<close>

lemma data_reads_bus_read_8:
  "data_reads (trace (snd (bus_read_8 port c))) = data_reads (trace c)"
  by (simp add: bus_read_8_def Let_def data_reads_def)

lemma data_reads_ata_write:
  "data_reads (trace (ata_write channelnum reg val c)) = data_reads (trace c)"
  by (simp add: ata_write_def bus_write_8_def data_reads_def)

lemma data_reads_ata_read:
  "data_reads (trace (snd (ata_read channelnum reg c))) = data_reads (trace c)"
  by (simp add: ata_read_def data_reads_bus_read_8)

lemma data_reads_read_altstatus:
  "data_reads (trace (snd (read_altstatus channelnum c))) = data_reads (trace c)"
  by (simp add: read_altstatus_def data_reads_bus_read_8)

lemma data_reads_ata_delay400:
  "data_reads (trace (ata_delay400 channelnum c)) = data_reads (trace c)"
  by (simp add: ata_delay400_def data_reads_read_altstatus)

lemma data_reads_ata_wait_loop:
  "data_reads (trace (ata_wait_loop channelnum i c)) = data_reads (trace c)"
proof (induction channelnum i c rule: ata_wait_loop.induct)
  case (1 channelnum i c)
  show ?case
  proof (cases "i < 0x80000000")
    case True
    obtain status c1 where r: "read_altstatus channelnum c = (status, c1)"
      by (cases "read_altstatus channelnum c")
    then have d: "data_reads (trace c1) = data_reads (trace c)"
      using data_reads_read_altstatus [of channelnum c] by simp
    show ?thesis
    proof (cases "ucast status AND ATA_STATUS_FLAG_BUSY = 0")
      case True
      with \<open>i < 0x80000000\<close> r d show ?thesis
        by (subst ata_wait_loop.simps) simp
    next
      case False
      with 1 [OF \<open>i < 0x80000000\<close> r [symmetric]] \<open>i < 0x80000000\<close> r d show ?thesis
        by (subst ata_wait_loop.simps) simp
    qed
  next
    case False
    then show ?thesis
      by (subst ata_wait_loop.simps) simp
  qed
qed

lemma data_reads_ata_wait:
  "data_reads (trace (ata_wait channelnum c)) = data_reads (trace c)"
  by (simp add: ata_wait_def data_reads_ata_wait_loop data_reads_ata_delay400)

lemma ata_pio_read_loop_image:
  assumes "dev_in32 c = sector_image ws" and "count AND 3 = 0"
    and "data_reads (trace c) + unat count div 4 \<le> length ws"
  shows "\<exists>c1. ata_pio_read_loop channelnum count stored c
                = Inr (stored @ concat (map word_bytes
                         (take (unat count div 4) (drop (data_reads (trace c)) ws))), c1)
              \<and> only_io c c1
              \<and> data_reads (trace c1) = data_reads (trace c) + unat count div 4"
  using assms
proof (induction channelnum count stored c rule: ata_pio_read_loop.induct)
  case (1 channelnum count stored c)
  show ?case
  proof (cases "count = 0")
    case True
    then show ?thesis
      by (subst ata_pio_read_loop.simps) simp
  next
    case False
    from "1.prems"(2) have d: "4 dvd unat count"
      by (simp add: and_3_dvd)
    from False have "unat count \<noteq> 0"
      by (simp add: unat_eq_0)
    with d have u4: "4 \<le> unat count"
      by (auto dest: dvd_imp_le)
    then have n4: "\<not> count < 4"
      by (simp add: word_less_nat_alt)
    then have "4 \<le> count"
      by simp
    then have u: "unat (count - 4) = unat count - 4"
      by (simp add: unat_sub)
    with d u4 have a3: "(count - 4) AND 3 = 0"
      by (simp add: and_3_dvd)
    from d u4 have dv: "unat count div 4 = Suc ((unat count - 4) div 4)"
      by auto
    let ?j = "data_reads (trace c)"
    let ?port = "base_port (channels c channelnum) + ATA_REG_DATA"
    from "1.prems"(3) dv have j: "?j < length ws"
      by simp
    define c0 where "c0 = c\<lparr>trace := trace c @ [In32 ?port (ws ! ?j)]\<rparr>"
    have r: "bus_read_32 ?port c = (ws ! ?j, c0)"
      using j by (simp add: bus_read_32_def Let_def "1.prems"(1) sector_image_def c0_def)
    have c0: "dev_in32 c0 = sector_image ws" "data_reads (trace c0) = Suc ?j" "only_io c c0"
      using "1.prems"(1) by (simp_all add: c0_def data_reads_def)
    from "1.prems"(3) dv have "data_reads (trace c0) + unat (count - 4) div 4 \<le> length ws"
      by (simp add: c0 u)
    from "1.IH" [OF False n4 r [symmetric] c0(1) a3 this]
    obtain c1 where l: "ata_pio_read_loop channelnum (count - 4) (stored @ word_bytes (ws ! ?j)) c0
        = Inr ((stored @ word_bytes (ws ! ?j)) @ concat (map word_bytes
            (take (unat (count - 4) div 4) (drop (data_reads (trace c0)) ws))), c1)"
      and io: "only_io c0 c1"
      and dr: "data_reads (trace c1) = data_reads (trace c0) + unat (count - 4) div 4"
      unfolding word_bytes_def by blast
    have "take (unat count div 4) (drop ?j ws)
          = ws ! ?j # take (unat (count - 4) div 4) (drop (Suc ?j) ws)"
      using j by (simp add: dv u Cons_nth_drop_Suc [symmetric])
    with l have "ata_pio_read_loop channelnum count stored c
        = Inr (stored @ concat (map word_bytes (take (unat count div 4) (drop ?j ws))), c1)"
      using False n4 r by (subst ata_pio_read_loop.simps) (simp add: c0 word_bytes_def)
    moreover from c0(3) io have "only_io c c1"
      by (rule only_io_trans)
    moreover from dr have "data_reads (trace c1) = ?j + unat count div 4"
      by (simp add: c0 dv u)
    ultimately show ?thesis
      by blast
  qed
qed

lemma healthy_only_io: "healthy c \<Longrightarrow> only_io c c1 \<Longrightarrow> healthy c1"
  by (simp add: healthy_def only_io_fields)

lemma healthy_ata_read:
  assumes "healthy c" and "ata_read channelnum reg c = (status, c1)"
  shows "bit status 3" "\<not> bit status 0" "\<not> bit status 5"
  using assms by (auto simp: healthy_def ata_read_def bus_read_8_def Let_def)

lemma healthy_read_altstatus:
  assumes "healthy c" and "read_altstatus channelnum c = (status, c1)"
  shows "bit status 3" "\<not> bit status 0" "\<not> bit status 5"
  using assms by (auto simp: healthy_def read_altstatus_def bus_read_8_def Let_def)

lemma read_during_setup_image:
  assumes "healthy c" and "dev_in32 c = sector_image ws"
    and "data_reads (trace c) + unat (n * SECTOR_SIZE) div 4 \<le> length ws"
  shows "\<exists>c1. read_during_setup disk lba n c
               = Inr ((0, concat (map word_bytes (take (unat (n * SECTOR_SIZE) div 4)
                                    (drop (data_reads (trace c)) ws)))), c1)"
proof -
  obtain c0 where s: "hdd_setup_io disk IO_READ lba n c = Inr ((), c0)"
    and f0: "c0 = c\<lparr>trace := trace c0, active_disk := active_disk c0, issued := issued c0\<rparr>"
    and d0: "data_reads (trace c0) = data_reads (trace c)"
    using hdd_setup_io_read [of disk lba n c] by blast
  from f0 have e0: "dev_in8 c0 = dev_in8 c" "dev_in32 c0 = dev_in32 c"
    by (cases c; cases c0; simp)+
  obtain status c2 where a: "ata_read (channel disk) ATA_REG_COMMAND_STATUS
      (ata_wait (channel disk) c0) = (status, c2)"
    by (cases "ata_read (channel disk) ATA_REG_COMMAND_STATUS (ata_wait (channel disk) c0)")
  have "only_io (ata_wait (channel disk) c0) c2"
    using ata_read_io [of "ata_wait (channel disk) c0" "channel disk" ATA_REG_COMMAND_STATUS] a
    by simp
  with ata_wait_io have io2: "only_io c0 c2"
    by (rule only_io_trans)
  from assms(1) e0 have h0: "healthy c0"
    by (simp add: healthy_def)
  then have "healthy (ata_wait (channel disk) c0)"
    using ata_wait_io by (rule healthy_only_io)
  from healthy_ata_read [OF this a]
  have ok: "ucast status AND (ATA_STATUS_FLAG_ERROR OR ATA_STATUS_FLAG_DEVICE_FAILURE) = (0 :: u32)"
    using ist_mask [of status] by simp
  have d2: "data_reads (trace c2) = data_reads (trace c)"
    using data_reads_ata_read [of "channel disk" ATA_REG_COMMAND_STATUS
        "ata_wait (channel disk) c0"] a
    by (simp add: data_reads_ata_wait d0)
  have i2: "dev_in32 c2 = sector_image ws"
    using only_io_fields(9) [OF io2] e0 assms(2) by simp
  from ata_pio_read_loop_image [OF i2 sectors_and_3, of n "channel disk" "[]"] assms(3)
  obtain c3 where "ata_pio_read (channel disk) (n * SECTOR_SIZE) c2
      = Inr (concat (map word_bytes (take (unat (n * SECTOR_SIZE) div 4)
                                    (drop (data_reads (trace c)) ws))), c3)"
    by (auto simp: ata_pio_read_def sectors_and_3 d2)
  with s a ok show ?thesis
    by (simp add: read_during_setup_def)
qed

lemma word_bytes_simps:
  "word_bytes 0 = [0, 0, 0, 0]" "word_bytes 0x00830000 = [0, 0, 0x83, 0]"
  "word_bytes 0x08000000 = [0, 0, 0, 8]" "word_bytes 0x03E80000 = [0, 0, 0xE8, 3]"
  "word_bytes 0x10000000 = [0, 0, 0, 0x10]" "word_bytes 0x00080000 = [0, 0, 8, 0]"
  "word_bytes 0xAA550000 = [0, 0, 0x55, 0xAA]" "word_bytes 0x03000000 = [0, 0, 0, 3]"
  "word_bytes 0x0FFFFFFF = [0xFF, 0xFF, 0xFF, 0x0F]" "word_bytes 0x20000000 = [0, 0, 0, 0x20]"
  by (simp_all add: word_bytes_def)

lemma zero_words: "concat (replicate n [0, 0, 0, 0 :: u8]) = replicate (4 * n) 0"
  by (induction n) (simp_all add: replicate_add eval_nat_numeral)

lemma mbr_sector:
  "concat (map word_bytes mbr_words)
   = replicate 464 0 @ [0, 0, 0x83, 0, 0, 0, 0, 8, 0, 0, 0xE8, 3, 0, 0, 0, 0, 0, 0, 0, 0,
                        0, 0, 0, 0x10, 0, 0, 8, 0] @ replicate 16 0 @ [0, 0, 0x55, 0xAA]"
  by (simp add: mbr_words_def word_bytes_simps zero_words)

lemma identify_sector:
  "concat (map word_bytes identify_words)
   = replicate 96 0 @ [0, 0, 0, 3] @ replicate 20 0 @ [0xFF, 0xFF, 0xFF, 0x0F]
     @ replicate 76 0 @ [0, 0, 0, 0x20, 0, 0, 0, 0] @ replicate 304 0"
  by (simp add: identify_words_def word_bytes_simps zero_words)

theorem setup_partitions_mbr_witness:
  "\<exists>c2. setup_partitions Little_endian mock_disk
          (mock_controller (answering 0x58) (sector_image mbr_words) []) = Inr ((), c2)
        \<and> partition_list c2
            = [\<lparr>part_disk = mock_disk, part_system_id = 0x83, part_start_lba = 2048,
                part_sector_count = 1000, part_devname = ''hd0d0p01''\<rparr>]"
proof -
  let ?c = "mock_controller (answering 0x58) (sector_image mbr_words) []"
  have c: "dev_in32 ?c = sector_image mbr_words" "data_reads (trace ?c) = 0"
    "partition_list ?c = []"
    by (simp_all add: mock_controller_def data_reads_def)
  have n: "unat SECTOR_SIZE div 4 = 128" "length mbr_words = 128"
    by (simp_all add: SECTOR_SIZE_def mbr_words_def)
  from read_during_setup_image [OF healthy_mock c(1), of 1 mock_disk 0]
  obtain c1 where r: "read_during_setup mock_disk 0 1 ?c
      = Inr ((0, concat (map word_bytes mbr_words)), c1)"
    by (auto simp: c n)
  from read_during_setup_frame(1) [OF r] have p: "partition_list c1 = []"
    by (cases c1) (simp add: mock_controller_def)
  have l: "length (devname mock_disk) \<le> 8"
    by (simp add: mock_disk_def)
  have "filter (slot_retained (concat (map word_bytes mbr_words))) [0, 1, 2, 3] = [1]"
    unfolding mbr_sector
    by (simp add: le_nat_simps slot_retained_def slot_system_id_def slot_start_lba_def
        slot_sector_count_def nth_append)
  moreover have "slot_partition mock_disk (concat (map word_bytes mbr_words)) 1
      = \<lparr>part_disk = mock_disk, part_system_id = 0x83, part_start_lba = 2048,
         part_sector_count = 1000, part_devname = ''hd0d0p01''\<rparr>"
    unfolding mbr_sector
    by (simp add: le_nat_simps slot_partition_def slot_system_id_def slot_start_lba_def
        slot_sector_count_def nth_append two_digits_def mock_disk_def)
  moreover have "le_nat (take 2 (drop 510 (concat (map word_bytes mbr_words)))) = 0xAA55"
    unfolding mbr_sector by (simp add: le_nat_simps)
  ultimately have m: "mbr_partitions mock_disk (concat (map word_bytes mbr_words))
      = [\<lparr>part_disk = mock_disk, part_system_id = 0x83, part_start_lba = 2048,
          part_sector_count = 1000, part_devname = ''hd0d0p01''\<rparr>]"
    by (simp add: mbr_partitions_def)
  from setup_partitions_mbr [OF r l] show ?thesis
    by (simp add: add_partitions_def p m)
qed

lemma setup_disk_identifies:
  assumes "healthy c" and "dev_in32 c = sector_image ws"
    and "data_reads (trace c) + 128 \<le> length ws" and "disknum < 4"
    and "ids = concat (map word_bytes (take 128 (drop (data_reads (trace c)) ws)))"
    and "ids ! 99 AND 2 \<noteq> 0" and "ids ! 99 AND 1 \<noteq> 0"
  shows "\<exists>c1 d. setup_disk Little_endian disknum c = Inr (0, c1)
           \<and> disk_list c1 = disk_list c @ [d] \<and> identification_space d = ids"
proof -
  define ch where "ch = (if drop_bit 1 disknum = 0 then Primary else Secondary)"
  define c3 where "c3 = ata_delay400 ch (ata_write ch ATA_REG_COMMAND_STATUS 0xEC
      (ata_write ch ATA_REG_LBA_HIGH 0 (ata_write ch ATA_REG_LBA_MID 0
        (ata_write ch ATA_REG_LBA_LOW 0 (ata_write ch ATA_REG_SECTOR_COUNT 0
          (ata_delay400 ch (ata_write ch ATA_REG_DISK_SELECT
             (ucast (0xA0 OR push_bit 4 (disknum AND 1))) c)))))))"
  obtain accepted c4 where a: "ata_read ch ATA_REG_COMMAND_STATUS c3 = (accepted, c4)"
    by (cases "ata_read ch ATA_REG_COMMAND_STATUS c3")
  obtain status c5 where s: "read_altstatus ch (ata_wait ch c4) = (status, c5)"
    by (cases "read_altstatus ch (ata_wait ch c4)")
  have io3: "only_io c c3"
    unfolding c3_def by (intro only_io_intros)
  have "only_io c (snd (ata_read ch ATA_REG_COMMAND_STATUS c3))"
    using io3 by (rule only_io_ata_read)
  with a have io4: "only_io c c4"
    by simp
  then have iow: "only_io c (ata_wait ch c4)"
    by (rule only_io_ata_wait)
  then have "only_io c (snd (read_altstatus ch (ata_wait ch c4)))"
    by (rule only_io_read_altstatus)
  with s have io5: "only_io c c5"
    by simp
  have "data_reads (trace (snd (read_altstatus ch (ata_wait ch
          (snd (ata_read ch ATA_REG_COMMAND_STATUS c3)))))) = data_reads (trace c)"
    unfolding c3_def
    by (simp add: data_reads_read_altstatus data_reads_ata_wait data_reads_ata_read
        data_reads_ata_delay400 data_reads_ata_write)
  with a s have d5: "data_reads (trace c5) = data_reads (trace c)"
    by simp
  from healthy_ata_read(1) [OF healthy_only_io [OF assms(1) io3] a] have acc: "accepted \<noteq> 0"
    by auto
  from healthy_read_altstatus(2) [OF healthy_only_io [OF assms(1) iow] s]
  have st: "ucast status AND ATA_STATUS_FLAG_ERROR = (0 :: u32)"
    using status_error_bit [of status] by simp
  have i5: "dev_in32 c5 = sector_image ws"
    using only_io_fields(9) [OF io5] assms(2) by simp
  have "(512 :: u32) AND 3 = 0"
    by simp
  from ata_pio_read_loop_image [OF i5 this, of ch "[]"] assms(3)
  obtain c6 where p: "ata_pio_read ch 512 c5 = Inr (ids, c6)"
    by (auto simp: ata_pio_read_def d5 assms(5))
  from ata_pio_read_length [OF p] have len: "length ids = 512"
    by simp
  from ata_pio_read_io [of c5 ch 512] p have "only_io c5 c6"
    by simp
  with io5 have io6: "only_io c c6"
    by (rule only_io_trans)
  obtain serial firmware model_name where
    fx: "fixup_string_endianness (take 10 (drop 20 ids)) = Some serial"
      "fixup_string_endianness (take 8 (drop 46 ids)) = Some firmware"
      "fixup_string_endianness (take 40 (drop 54 ids)) = Some model_name"
    using fixup_string_endianness_even [of "take 10 (drop 20 ids)"]
      fixup_string_endianness_even [of "take 8 (drop 46 ids)"]
      fixup_string_endianness_even [of "take 40 (drop 54 ids)"]
    by (auto simp: len)
  define d where "d =
      \<lparr>channel = ch, slave = disknum AND 1, identification_space = ids,
         serial_number = serial, firmware_revision = firmware, model = model_name,
         lba_supported = True, dma_supported = True,
         sector_capacity = load_native Little_endian (take 4 (drop 114 ids)),
         addressable_sector_count =
           (if (load_native Little_endian (take 4 (drop 120 ids)) :: u32) = 0x0fffffff
            then load_native Little_endian (take 8 (drop 200 ids))
            else ucast (load_native Little_endian (take 4 (drop 120 ids)) :: u32)),
         devname = take 3 (controller_devname c6)
            @ [CHR ''d'', char_of (of_char CHR ''0'' + unat disknum)]\<rparr>"
  define c8 where "c8 = device_create (devname d) (ATA_DEVICE_WHOLEDISK d)
                          (c6\<lparr>disk_list := disk_list c6 @ [d]\<rparr>)"
  have l8: "length (devname d) \<le> 8"
    by (simp add: d_def)
  obtain r sector0 c0 where "read_during_setup d 0 1 c8 = Inr ((r, sector0), c0)"
    using read_during_setup_returns by blast
  from setup_partitions_result [OF this l8]
  obtain c9 where sp: "setup_partitions Little_endian d c8 = Inr ((), c9)"
    by blast
  from setup_partitions_frame(1) [OF sp l8] only_io_fields(5) [OF io6]
  have dl: "disk_list c9 = disk_list c @ [d]"
    by (simp add: c8_def device_create_def)
  from sp assms(4,6,7) acc st
  have "setup_disk Little_endian disknum c = Inr (0, c9)"
    unfolding setup_disk_def Let_def ch_def [symmetric] c3_def [symmetric] c8_def d_def
    by (simp add: a s p fx)
  with dl show ?thesis
    by (auto simp: d_def)
qed

theorem setup_disk_sector_count_witness:
  "\<exists>c1 d. setup_disk Little_endian 0
             (mock_controller (answering 0x58) (sector_image identify_words) []) = Inr (0, c1)
          \<and> disk_list c1 = [d]
          \<and> le_nat (take 4 (drop 120 (identification_space d))) = 0x0FFFFFFF
          \<and> addressable_sector_count d = 0x20000000"
proof -
  let ?c = "mock_controller (answering 0x58) (sector_image identify_words) []"
  let ?ids = "concat (map word_bytes identify_words)"
  have c: "dev_in32 ?c = sector_image identify_words" "data_reads (trace ?c) = 0"
    "disk_list ?c = []"
    by (simp_all add: mock_controller_def data_reads_def)
  have n: "length identify_words = 128"
    by (simp add: identify_words_def)
  have b: "?ids ! 99 AND 2 \<noteq> 0" "?ids ! 99 AND 1 \<noteq> 0"
    unfolding identify_sector by (simp_all add: nth_append)
  from setup_disk_identifies [OF healthy_mock c(1) _ _ _ b, of 0]
  obtain c1 d0 where r: "setup_disk Little_endian 0 ?c = Inr (0, c1)"
    and d0: "disk_list c1 = [d0]" "identification_space d0 = ?ids"
    by (auto simp: c n)
  from setup_disk_sector_count [OF r] obtain d where
    d: "disk_list c1 = disk_list ?c @ [d]"
    and u: "unat (addressable_sector_count d)
            = (if le_nat (take 4 (drop 120 (identification_space d))) = 0x0FFFFFFF
               then le_nat (take 8 (drop 200 (identification_space d)))
               else le_nat (take 4 (drop 120 (identification_space d))))"
    by blast
  from d d0 have i: "identification_space d = ?ids"
    by (simp add: c)
  have l: "le_nat (take 4 (drop 120 ?ids)) = 0x0FFFFFFF"
    "le_nat (take 8 (drop 200 ?ids)) = 0x20000000"
    unfolding identify_sector by (simp_all add: le_nat_simps)
  from u have "unat (addressable_sector_count d) = unat (0x20000000 :: u64)"
    by (simp add: i l)
  then have "addressable_sector_count d = 0x20000000"
    by (simp only: word_unat_eq_iff)
  with r d i l show ?thesis
    by (auto simp: c)
qed

end
